theory Spec2Isabelle
  imports Main "HOL-Library.Word"
begin

section \<open>Data model\<close>

text \<open>
  The pruning engine is \<^verbatim>\<open>pruneContract\<close> (a method of \<^verbatim>\<open>Bus\<close>) of \<^verbatim>\<open>bus/pruning.go\<close>; the
  request and response types come from the \<^verbatim>\<open>api\<close> package. Go's \<^verbatim>\<open>uint64\<close> is a
  64-bit word (arithmetic wraps), a \<^verbatim>\<open>[32]byte\<close> hash is a 256-bit word, a slice is a
  list, and \<^verbatim>\<open>types.Currency\<close> (an amount of the base unit, from the core library) is a
  natural number whose only observations here are \<^verbatim>\<open>IsZero\<close> and equality.
\<close>

type_synonym u64 = "64 word"
type_synonym Hash256 = "256 word"
type_synonym FileContractID = "256 word"
type_synonym PublicKey = "256 word"
type_synonym Currency = nat

text \<open>
  The revision the host client hands back (\<^verbatim>\<open>types.V2FileContract\<close>), with the fields
  \<^verbatim>\<open>pruneContract\<close> reads: \<^verbatim>\<open>Filesize\<close>, \<^verbatim>\<open>RevisionNumber\<close>,
  \<^verbatim>\<open>RenterOutput.Value\<close> and \<^verbatim>\<open>MissedHostOutput().Value\<close>.
\<close>

record V2FileContract =
  Filesize :: u64
  RevisionNumber :: u64
  RenterOutputValue :: Currency
  MissedHostOutputValue :: Currency

text \<open>
  \<^verbatim>\<open>api.ContractMetadata\<close>, restricted to the fields that \<^verbatim>\<open>pruneContract\<close> reads
  (\<^verbatim>\<open>ID\<close>, \<^verbatim>\<open>HostKey\<close>, \<^verbatim>\<open>RevisionNumber\<close>) and \<^verbatim>\<open>Size\<close>. The prefix
  \<open>cm_\<close> keeps the field names apart from those of the revision.
\<close>

record ContractMetadata =
  cm_ID :: FileContractID
  cm_HostKey :: PublicKey
  cm_RevisionNumber :: u64
  cm_Size :: u64

record ContractPruneResponse =
  ContractSize :: u64
  Pruned :: u64
  Remaining :: u64
  Error :: string

record ContractSpending =
  Deletions :: Currency
  FundAccount :: Currency
  SectorRoots :: Currency
  Uploads :: Currency

text \<open>\<^verbatim>\<open>ContractSpendingRecord\<close> embeds \<^verbatim>\<open>ContractSpending\<close>: a record extension.\<close>

record ContractSpendingRecord = ContractSpending +
  ContractID :: FileContractID
  rec_RevisionNumber :: u64
  rec_Size :: u64
  MissedHostPayout :: Currency
  ValidRenterPayout :: Currency

text \<open>
  The results of the two paid RPCs. The usage breakdown \<^verbatim>\<open>rhpv4.Usage\<close> belongs to the
  core library, so its type is a parameter \<open>'u\<close>.
\<close>

record 'u RPCSectorRootsResult =
  roots_Revision :: V2FileContract
  Roots :: "Hash256 list"
  roots_Usage :: 'u

record 'u RPCFreeSectorsResult =
  free_Revision :: V2FileContract
  free_Usage :: 'u

text \<open>The verdict of the gouging checker: \<^verbatim>\<open>Gouging()\<close> and \<^verbatim>\<open>String()\<close>.\<close>

record GougingBreakdown =
  gb_Gouging :: bool
  gb_String :: string

section \<open>Collaborators\<close>

text \<open>
  The host client, the store and the chain manager are interfaces of \<^verbatim>\<open>Bus\<close>. Each
  operation is a function of the state of the outside world \<open>'w\<close> (host, network,
  database, clock, the caller's context) and of the arguments that identify the request;
  it returns a Go \<^verbatim>\<open>error\<close> (its message) or a result, and the next world. The signer,
  the renter key and the tip state are passed through unchanged by \<^verbatim>\<open>pruneContract\<close>
  and are part of the world.
\<close>

record ('w, 'u, 's, 'p) Bus =
  rhp4_LatestRevision ::
    "'w \<Rightarrow> PublicKey \<Rightarrow> string \<Rightarrow> FileContractID \<Rightarrow> (string + V2FileContract) \<times> 'w"
  rhp4_Settings ::
    "'w \<Rightarrow> PublicKey \<Rightarrow> string \<Rightarrow> (string + 's) \<times> 'w"
  rhp4_SectorRoots ::
    "'w \<Rightarrow> PublicKey \<Rightarrow> string \<Rightarrow> 'p \<Rightarrow> FileContractID \<Rightarrow> V2FileContract \<Rightarrow> u64 \<Rightarrow> u64
      \<Rightarrow> (string + 'u RPCSectorRootsResult) \<times> 'w"
  rhp4_FreeSectors ::
    "'w \<Rightarrow> PublicKey \<Rightarrow> string \<Rightarrow> 'p \<Rightarrow> FileContractID \<Rightarrow> V2FileContract \<Rightarrow> u64 list
      \<Rightarrow> (string + 'u RPCFreeSectorsResult) \<times> 'w"
  store_PrunableContractRoots ::
    "'w \<Rightarrow> FileContractID \<Rightarrow> Hash256 list \<Rightarrow> (string + u64 list) \<times> 'w"
  store_RecordContractSpending ::
    "'w \<Rightarrow> ContractSpendingRecord list \<Rightarrow> string option \<times> 'w"

text \<open>
  What \<^verbatim>\<open>pruneContract\<close> uses of the protocol library \<^verbatim>\<open>rhpv4\<close>: the constants
  \<^verbatim>\<open>SectorSize\<close> and \<^verbatim>\<open>MaxSectorBatchSize\<close>, the projection \<^verbatim>\<open>settings.Prices\<close>, and
  the usage arithmetic (\<^verbatim>\<open>Usage.Add\<close>, \<^verbatim>\<open>Usage.RenterCost\<close>, the zero value of
  \<^verbatim>\<open>Usage\<close>). None of them is defined in this repository; they are parameters.
  The usage arithmetic is taken as total: an overflow panic inside the library's currency
  addition is outside this model.
\<close>

record ('u, 's, 'p) rhpv4 =
  SectorSize :: nat
  MaxSectorBatchSize :: nat
  Prices :: "'s \<Rightarrow> 'p"
  usage_Add :: "'u \<Rightarrow> 'u \<Rightarrow> 'u"
  usage_RenterCost :: "'u \<Rightarrow> Currency"
  usage_Zero :: 'u

text \<open>Every call \<^verbatim>\<open>pruneContract\<close> makes is logged with its arguments and its answer.\<close>

datatype ('u, 's, 'p) call =
    CallLatestRevision PublicKey string FileContractID "string + V2FileContract"
  | CallSettings PublicKey string "string + 's"
  | CallSectorRoots PublicKey string 'p FileContractID V2FileContract u64 u64
      "string + 'u RPCSectorRootsResult"
  | CallPrunableContractRoots FileContractID "Hash256 list" "string + u64 list"
  | CallFreeSectors PublicKey string 'p FileContractID V2FileContract "u64 list"
      "string + 'u RPCFreeSectorsResult"
  | CallRecordContractSpending "ContractSpendingRecord list" "string option"

text \<open>
  The ways \<^verbatim>\<open>pruneContract\<close> ends without a response: its six \<^verbatim>\<open>fmt.Errorf\<close> returns,
  in source order, and the runtime panic of \<^verbatim>\<open>sectorRoots[index]\<close> (line 79) when the
  store names an index beyond the roots fetched.
\<close>

datatype prune_error =
    RevisionFetchFailed string
  | StaleRevision u64 u64
  | PricesFetchFailed string
  | HostGouging string
  | SectorsFetchFailed string
  | PrunableRootsFailed string
  | FreeSectorsFailed string
  | IndexOutOfRange u64 nat

section \<open>The enumeration loop (lines 43 to 68)\<close>

record 'u roots_loop =
  rev :: V2FileContract
  sectorRoots :: "Hash256 list"
  offset :: u64
  rootsUsage :: 'u

definition batch_length :: "('u, 's, 'p) rhpv4 \<Rightarrow> u64 \<Rightarrow> u64 \<Rightarrow> u64" where
  "batch_length lib numsectors off =
     (let len = of_nat (MaxSectorBatchSize lib) in
      if off + len > numsectors then numsectors - off else len)"

partial_function (option) fetchRoots ::
  "('w, 'u, 's, 'p) Bus \<Rightarrow> ('u, 's, 'p) rhpv4 \<Rightarrow> ContractMetadata \<Rightarrow> string \<Rightarrow> 'p \<Rightarrow> u64
    \<Rightarrow> 'u roots_loop \<Rightarrow> 'w \<times> ('u, 's, 'p) call list
    \<Rightarrow> ((prune_error + 'u roots_loop) \<times> 'w \<times> ('u, 's, 'p) call list) option"
where
  "fetchRoots b lib cm hostIP prices numsectors st io =
     (if offset st < numsectors then
        (let len = batch_length lib numsectors (offset st) in
         case rhp4_SectorRoots b (fst io) (cm_HostKey cm) hostIP prices (cm_ID cm) (rev st)
                (offset st) len of
           (r, w') \<Rightarrow>
             (let log = snd io @ [CallSectorRoots (cm_HostKey cm) hostIP prices (cm_ID cm)
                                    (rev st) (offset st) len r] in
              case r of
                Inl err \<Rightarrow> Some (Inl (SectorsFetchFailed err), w', log)
              | Inr res \<Rightarrow>
                  fetchRoots b lib cm hostIP prices numsectors
                    \<lparr> rev = roots_Revision res,
                      sectorRoots = sectorRoots st @ Roots res,
                      offset = offset st + of_nat (length (Roots res)),
                      rootsUsage = usage_Add lib (rootsUsage st) (roots_Usage res) \<rparr>
                    (w', log)))
      else Some (Inr st, io))"

declare fetchRoots.simps [code]

text \<open>
  Lines 40 to 42 set the loop up: \<^verbatim>\<open>numsectors := rev.Filesize / rhpv4.SectorSize\<close>, no
  roots yet, offset zero and the zero \<^verbatim>\<open>Usage\<close>.
\<close>

definition numsectors_of :: "('u, 's, 'p) rhpv4 \<Rightarrow> V2FileContract \<Rightarrow> u64" where
  "numsectors_of lib rev0 = Filesize rev0 div of_nat (SectorSize lib)"

definition enumerateSectors ::
  "('w, 'u, 's, 'p) Bus \<Rightarrow> ('u, 's, 'p) rhpv4 \<Rightarrow> ContractMetadata \<Rightarrow> string \<Rightarrow> 'p
    \<Rightarrow> V2FileContract \<Rightarrow> 'w \<times> ('u, 's, 'p) call list
    \<Rightarrow> ((prune_error + 'u roots_loop) \<times> 'w \<times> ('u, 's, 'p) call list) option"
where
  "enumerateSectors b lib cm hostIP prices rev0 io =
     fetchRoots b lib cm hostIP prices (numsectors_of lib rev0)
       \<lparr> rev = rev0, sectorRoots = [], offset = 0, rootsUsage = usage_Zero lib \<rparr> io"

section \<open>In-flight exclusion (lines 76 to 84)\<close>

text \<open>
  \<^verbatim>\<open>toPrune := indices[:0]\<close> shares the backing array of \<^verbatim>\<open>indices\<close>, and the
  \<^verbatim>\<open>range\<close> loop reads \<^verbatim>\<open>indices[i]\<close> from that array while \<^verbatim>\<open>append\<close> writes
  into it. The model keeps the array \<open>arr\<close>, the read position \<open>i\<close> and \<open>k\<close>, the
  length of \<^verbatim>\<open>toPrune\<close>; \<^verbatim>\<open>append\<close> never reallocates because \<open>k \<le> i\<close> is below the
  capacity. \<^verbatim>\<open>pendingUploads\<close> is a \<^verbatim>\<open>map[types.Hash256]struct{}\<close>. Indexing
  \<^verbatim>\<open>sectorRoots[index]\<close> beyond the roots panics.
\<close>

function excludePending ::
  "Hash256 list \<Rightarrow> (Hash256 \<rightharpoonup> unit) \<Rightarrow> u64 list \<Rightarrow> nat \<Rightarrow> nat \<Rightarrow> prune_error + u64 list"
where
  "excludePending roots pendingUploads arr i k =
     (if i < length arr then
        (let index = arr ! i in
         if unat index < length roots then
           (case pendingUploads (roots ! unat index) of
              Some _ \<Rightarrow> excludePending roots pendingUploads arr (Suc i) k
            | None \<Rightarrow> excludePending roots pendingUploads (arr[k := index]) (Suc i) (Suc k))
         else Inl (IndexOutOfRange index (length roots)))
      else Inr (take k arr))"
  by pat_completeness auto
termination
  by (relation "measure (\<lambda>(roots, pendingUploads, arr, i, k). length arr - i)") auto

declare excludePending.simps [simp del]

section \<open>pruneContract\<close>

text \<open>
  Lines 70 to 128: what \<^verbatim>\<open>pruneContract\<close> does once the roots are enumerated,
  with the spending record of lines 109 to 120 and the response of lines 124 to 128. Go's
  \<^verbatim>\<open>int\<close> is 64 bits wide, so \<^verbatim>\<open>uint64(len(toPrune) * rhpv4.SectorSize)\<close> is the
  product modulo \<open>2 ^ 64\<close>. The error that \<^verbatim>\<open>RecordContractSpending\<close> returns is
  dropped by the source.
\<close>

definition spendingRecord ::
  "('u, 's, 'p) rhpv4 \<Rightarrow> ContractMetadata \<Rightarrow> 'u \<Rightarrow> 'u \<Rightarrow> V2FileContract
    \<Rightarrow> ContractSpendingRecord"
where
  "spendingRecord lib cm rootsCost deleteUsage rev' =
     \<lparr> Deletions = usage_RenterCost lib deleteUsage,
       FundAccount = 0,
       SectorRoots = usage_RenterCost lib rootsCost,
       Uploads = 0,
       ContractID = cm_ID cm,
       rec_RevisionNumber = RevisionNumber rev',
       rec_Size = Filesize rev',
       MissedHostPayout = MissedHostOutputValue rev',
       ValidRenterPayout = RenterOutputValue rev' \<rparr>"

definition pruneResponse ::
  "('u, 's, 'p) rhpv4 \<Rightarrow> V2FileContract \<Rightarrow> u64 \<Rightarrow> u64 list \<Rightarrow> ContractPruneResponse"
where
  "pruneResponse lib rev' totalToPrune toPrune =
     \<lparr> ContractSize = Filesize rev',
       Pruned = of_nat (length toPrune * SectorSize lib),
       Remaining = (totalToPrune - of_nat (length toPrune)) * of_nat (SectorSize lib),
       Error = [] \<rparr>"

definition pruneFetched ::
  "('w, 'u, 's, 'p) Bus \<Rightarrow> ('u, 's, 'p) rhpv4 \<Rightarrow> ContractMetadata \<Rightarrow> string \<Rightarrow> 'p
    \<Rightarrow> (Hash256 \<rightharpoonup> unit) \<Rightarrow> 'u roots_loop \<Rightarrow> 'w \<times> ('u, 's, 'p) call list
    \<Rightarrow> (prune_error + ContractPruneResponse) \<times> 'w \<times> ('u, 's, 'p) call list"
where
  "pruneFetched b lib cm hostIP prices pendingUploads st io =
     (case store_PrunableContractRoots b (fst io) (cm_ID cm) (sectorRoots st) of
        (r4, w4) \<Rightarrow>
          (let log4 = snd io @ [CallPrunableContractRoots (cm_ID cm) (sectorRoots st) r4] in
           case r4 of
             Inl err \<Rightarrow> (Inl (PrunableRootsFailed err), w4, log4)
           | Inr indices \<Rightarrow>
               (case excludePending (sectorRoots st) pendingUploads indices 0 0 of
                  Inl e \<Rightarrow> (Inl e, w4, log4)
                | Inr filtered \<Rightarrow>
                    (let totalToPrune = (of_nat (length filtered) :: u64);
                         batchSize = (if MaxSectorBatchSize lib > length filtered
                                      then length filtered else MaxSectorBatchSize lib);
                         toPrune = take batchSize filtered
                     in
                     case rhp4_FreeSectors b w4 (cm_HostKey cm) hostIP prices (cm_ID cm)
                            (rev st) toPrune of
                       (r5, w5) \<Rightarrow>
                         (let log5 = log4 @ [CallFreeSectors (cm_HostKey cm) hostIP prices
                                               (cm_ID cm) (rev st) toPrune r5] in
                          case r5 of
                            Inl err \<Rightarrow> (Inl (FreeSectorsFailed err), w5, log5)
                          | Inr res \<Rightarrow>
                              (let deleteUsage = free_Usage res;
                                   rev' = free_Revision res;
                                   records = [spendingRecord lib cm (rootsUsage st)
                                                deleteUsage rev'];
                                   response = pruneResponse lib rev' totalToPrune toPrune
                               in
                               if usage_RenterCost lib
                                    (usage_Add lib (rootsUsage st) deleteUsage) \<noteq> 0
                               then
                                 (case store_RecordContractSpending b w5 records of
                                    (e, w6) \<Rightarrow>
                                      (Inr response, w6,
                                       log5 @ [CallRecordContractSpending records e]))
                               else (Inr response, w5, log5)))))))"

text \<open>
  Lines 16 to 68, then \<open>pruneFetched\<close>. The result is \<open>None\<close> when the enumeration
  loop never ends; otherwise it is the error or the response, the world afterwards and
  the calls made, in order.
\<close>

definition pruneContract ::
  "('w, 'u, 's, 'p) Bus \<Rightarrow> ('u, 's, 'p) rhpv4 \<Rightarrow> ('s \<Rightarrow> GougingBreakdown) \<Rightarrow> ContractMetadata
    \<Rightarrow> string \<Rightarrow> (Hash256 \<rightharpoonup> unit) \<Rightarrow> 'w
    \<Rightarrow> ((prune_error + ContractPruneResponse) \<times> 'w \<times> ('u, 's, 'p) call list) option"
where
  "pruneContract b lib gc cm hostIP pendingUploads w =
     (case rhp4_LatestRevision b w (cm_HostKey cm) hostIP (cm_ID cm) of
        (r1, w1) \<Rightarrow>
          (let log1 = [CallLatestRevision (cm_HostKey cm) hostIP (cm_ID cm) r1] in
           case r1 of
             Inl err \<Rightarrow> Some (Inl (RevisionFetchFailed err), w1, log1)
           | Inr rev0 \<Rightarrow>
               if RevisionNumber rev0 < cm_RevisionNumber cm
               then Some (Inl (StaleRevision (RevisionNumber rev0) (cm_RevisionNumber cm)),
                          w1, log1)
               else
                 (case rhp4_Settings b w1 (cm_HostKey cm) hostIP of
                    (r2, w2) \<Rightarrow>
                      (let log2 = log1 @ [CallSettings (cm_HostKey cm) hostIP r2] in
                       case r2 of
                         Inl err \<Rightarrow> Some (Inl (PricesFetchFailed err), w2, log2)
                       | Inr settings \<Rightarrow>
                           (let prices = Prices lib settings;
                                gb = gc settings
                            in
                            if gb_Gouging gb
                            then Some (Inl (HostGouging (gb_String gb)), w2, log2)
                            else
                              (case enumerateSectors b lib cm hostIP prices rev0 (w2, log2) of
                                 None \<Rightarrow> None
                               | Some (Inl e, io3) \<Rightarrow> Some (Inl e, io3)
                               | Some (Inr st, io3) \<Rightarrow>
                                   Some (pruneFetched b lib cm hostIP prices pendingUploads
                                           st io3)))))))"

section \<open>Assumptions on the protocol constants and on the client\<close>

text \<open>
  The constants are Go constants used both as \<^verbatim>\<open>int\<close> and as \<^verbatim>\<open>uint64\<close>: a sector
  holds at least two bytes, a batch at least one sector, and the bytes of a full batch
  fit an \<^verbatim>\<open>int\<close>. (The library's values are \<open>2 ^ 22\<close> and \<open>2 ^ 18\<close>.)
\<close>

definition wf_protocol :: "('u, 's, 'p) rhpv4 \<Rightarrow> bool" where
  "wf_protocol lib \<longleftrightarrow>
     2 \<le> SectorSize lib \<and> 1 \<le> MaxSectorBatchSize lib
     \<and> MaxSectorBatchSize lib * SectorSize lib < 2 ^ 63"

text \<open>The length of a Go slice is an \<^verbatim>\<open>int\<close>: every page of roots is shorter than \<open>2 ^ 63\<close>.\<close>

definition go_slices :: "('w, 'u, 's, 'p) Bus \<Rightarrow> bool" where
  "go_slices b \<longleftrightarrow>
     (\<forall>w hk ip pr fcid r off len res w'.
        rhp4_SectorRoots b w hk ip pr fcid r off len = (Inr res, w')
        \<longrightarrow> length (Roots res) < 2 ^ 63)"

text \<open>A host that answers every request for a nonzero number of roots with at least one.\<close>

definition responsive :: "('w, 'u, 's, 'p) Bus \<Rightarrow> bool" where
  "responsive b \<longleftrightarrow>
     (\<forall>w hk ip pr fcid r off len res w'.
        len \<noteq> 0 \<and> rhp4_SectorRoots b w hk ip pr fcid r off len = (Inr res, w')
        \<longrightarrow> 1 \<le> length (Roots res))"

text \<open>
  \<^verbatim>\<open>RenterCost\<close> distributes over \<^verbatim>\<open>Usage.Add\<close> (the usage is an additive monoid that
  converts to a renter-side cost).
\<close>

definition additive :: "('u, 's, 'p) rhpv4 \<Rightarrow> bool" where
  "additive lib \<longleftrightarrow>
     usage_RenterCost lib (usage_Zero lib) = 0
     \<and> (\<forall>x y. usage_RenterCost lib (usage_Add lib x y)
                 = usage_RenterCost lib x + usage_RenterCost lib y)"

section \<open>Reading the log of calls\<close>

definition page_of :: "('u, 's, 'p) call \<Rightarrow> 'u RPCSectorRootsResult option" where
  "page_of c = (case c of CallSectorRoots hk ip pr fcid r off len (Inr res) \<Rightarrow> Some res
                | _ \<Rightarrow> None)"

definition free_of ::
  "('u, 's, 'p) call \<Rightarrow> (u64 list \<times> (string + 'u RPCFreeSectorsResult)) option" where
  "free_of c = (case c of CallFreeSectors hk ip pr fcid r indices res \<Rightarrow> Some (indices, res)
                | _ \<Rightarrow> None)"

definition prunable_of ::
  "('u, 's, 'p) call \<Rightarrow> (Hash256 list \<times> (string + u64 list)) option" where
  "prunable_of c = (case c of CallPrunableContractRoots fcid roots res \<Rightarrow> Some (roots, res)
                    | _ \<Rightarrow> None)"

definition record_of :: "('u, 's, 'p) call \<Rightarrow> ContractSpendingRecord list option" where
  "record_of c = (case c of CallRecordContractSpending records e \<Rightarrow> Some records
                  | _ \<Rightarrow> None)"

text \<open>The successful pages of roots, the deletion calls, the store queries and the
  spending records handed to the store, each in the order of the log.\<close>

definition page_results :: "('u, 's, 'p) call list \<Rightarrow> 'u RPCSectorRootsResult list" where
  "page_results log = List.map_filter page_of log"

definition free_calls ::
  "('u, 's, 'p) call list \<Rightarrow> (u64 list \<times> (string + 'u RPCFreeSectorsResult)) list" where
  "free_calls log = List.map_filter free_of log"

definition prunable_calls ::
  "('u, 's, 'p) call list \<Rightarrow> (Hash256 list \<times> (string + u64 list)) list" where
  "prunable_calls log = List.map_filter prunable_of log"

definition recorded :: "('u, 's, 'p) call list \<Rightarrow> ContractSpendingRecord list list" where
  "recorded log = List.map_filter record_of log"

text \<open>The paid RPCs in a log: the requests for roots and the deletions, failed or not.\<close>

definition is_paid :: "('u, 's, 'p) call \<Rightarrow> bool" where
  "is_paid c = (case c of CallSectorRoots hk ip pr fcid r off len res \<Rightarrow> True
                | CallFreeSectors hk ip pr fcid r indices res \<Rightarrow> True
                | _ \<Rightarrow> False)"

definition paid_calls :: "('u, 's, 'p) call list \<Rightarrow> ('u, 's, 'p) call list" where
  "paid_calls log = filter is_paid log"

text \<open>The requests for a page of roots in a log, failed or not, in order.\<close>

definition is_page_request :: "('u, 's, 'p) call \<Rightarrow> bool" where
  "is_page_request c = (case c of CallSectorRoots hk ip pr fcid r off len res \<Rightarrow> True
                        | _ \<Rightarrow> False)"

definition sector_calls :: "('u, 's, 'p) call list \<Rightarrow> ('u, 's, 'p) call list" where
  "sector_calls log = filter is_page_request log"

text \<open>The total that the loop keeps in \<^verbatim>\<open>rootsUsage\<close>, read off the log.\<close>

definition sum_usage :: "('u, 's, 'p) rhpv4 \<Rightarrow> 'u \<Rightarrow> ('u, 's, 'p) call list \<Rightarrow> 'u" where
  "sum_usage lib u log = foldl (usage_Add lib) u (map roots_Usage (page_results log))"

text \<open>
  A run of page requests: every call is a \<^verbatim>\<open>SectorRoots\<close> request made while
  \<open>off < n\<close>, for the revision \<open>r\<close> and offset \<open>off\<close> at hand and of length \<open>f off\<close>; a
  failed request is the last one, a successful one hands its revision to the next request
  and moves the offset by the number of roots it returned.
\<close>

fun pages_chain ::
  "(u64 \<Rightarrow> u64) \<Rightarrow> u64 \<Rightarrow> V2FileContract \<Rightarrow> u64 \<Rightarrow> ('u, 's, 'p) call list \<Rightarrow> bool"
where
  "pages_chain f n r off [] = True"
| "pages_chain f n r off (c # cs) =
     (case c of
        CallSectorRoots hk ip pr fcid r' off' len res \<Rightarrow>
          r' = r \<and> off' = off \<and> off < n \<and> len = f off
          \<and> (case res of
                Inl err \<Rightarrow> cs = []
              | Inr x \<Rightarrow> pages_chain f n (roots_Revision x)
                          (off + of_nat (length (Roots x))) cs)
      | _ \<Rightarrow> False)"

text \<open>Every page holds no more roots than were asked for.\<close>

definition page_within :: "('u, 's, 'p) call \<Rightarrow> bool" where
  "page_within c =
     (case c of CallSectorRoots hk ip pr fcid r off len (Inr res) \<Rightarrow>
                  length (Roots res) \<le> unat len
      | _ \<Rightarrow> True)"

text \<open>
  The loop as a relation between the state before and the outcome: it relates exactly the
  runs of \<open>fetchRoots\<close> that return.
\<close>

inductive loop_run ::
  "('w, 'u, 's, 'p) Bus \<Rightarrow> ('u, 's, 'p) rhpv4 \<Rightarrow> ContractMetadata \<Rightarrow> string \<Rightarrow> 'p \<Rightarrow> u64
    \<Rightarrow> 'u roots_loop \<Rightarrow> 'w \<times> ('u, 's, 'p) call list
    \<Rightarrow> (prune_error + 'u roots_loop) \<times> 'w \<times> ('u, 's, 'p) call list \<Rightarrow> bool"
  for b lib cm hostIP prices numsectors
where
  loop_done:
    "\<not> offset st < numsectors \<Longrightarrow> loop_run b lib cm hostIP prices numsectors st io (Inr st, io)"
| loop_fail:
    "offset st < numsectors \<Longrightarrow>
     rhp4_SectorRoots b (fst io) (cm_HostKey cm) hostIP prices (cm_ID cm) (rev st) (offset st)
       (batch_length lib numsectors (offset st)) = (Inl err, w') \<Longrightarrow>
     loop_run b lib cm hostIP prices numsectors st io
       (Inl (SectorsFetchFailed err), w',
        snd io @ [CallSectorRoots (cm_HostKey cm) hostIP prices (cm_ID cm) (rev st) (offset st)
                    (batch_length lib numsectors (offset st)) (Inl err)])"
| loop_page:
    "offset st < numsectors \<Longrightarrow>
     rhp4_SectorRoots b (fst io) (cm_HostKey cm) hostIP prices (cm_ID cm) (rev st) (offset st)
       (batch_length lib numsectors (offset st)) = (Inr res, w') \<Longrightarrow>
     loop_run b lib cm hostIP prices numsectors
       \<lparr> rev = roots_Revision res,
         sectorRoots = sectorRoots st @ Roots res,
         offset = offset st + of_nat (length (Roots res)),
         rootsUsage = usage_Add lib (rootsUsage st) (roots_Usage res) \<rparr>
       (w', snd io @ [CallSectorRoots (cm_HostKey cm) hostIP prices (cm_ID cm) (rev st)
                        (offset st) (batch_length lib numsectors (offset st)) (Inr res)])
       out \<Longrightarrow>
     loop_run b lib cm hostIP prices numsectors st io out"

text \<open>
  The candidate indices that survive the in-flight exclusion: those whose sector root is
  not a key of the pending uploads, in the order the store gave them.
\<close>

definition candidates :: "Hash256 list \<Rightarrow> (Hash256 \<rightharpoonup> unit) \<Rightarrow> u64 list \<Rightarrow> u64 list" where
  "candidates roots pendingUploads indices =
     filter (\<lambda>index. pendingUploads (roots ! unat index) = None) indices"

text \<open>What a run of \<open>pruneContract\<close> returned, and the calls it made.\<close>

definition result_of :: "('a \<times> 'w \<times> 'l) option \<Rightarrow> 'a option" where
  "result_of x = map_option fst x"

definition log_of :: "('a \<times> 'w \<times> 'c list) option \<Rightarrow> 'c list" where
  "log_of x = (case x of None \<Rightarrow> [] | Some y \<Rightarrow> snd (snd y))"

text \<open>A host that answers every request for roots with an empty page.\<close>

definition silent :: "('w, 'u, 's, 'p) Bus \<Rightarrow> bool" where
  "silent b \<longleftrightarrow>
     (\<forall>w hk ip pr fcid r off len.
        \<exists>res w'. rhp4_SectorRoots b w hk ip pr fcid r off len = (Inr res, w')
                  \<and> Roots res = [])"

section \<open>A concrete contract, host and store\<close>

text \<open>
  A small instance to run the model on: sectors of four bytes in batches of two, a usage
  that is its own renter cost, a world that counts the calls served, and a contract of
  sixteen bytes whose four roots are 10, 11, 12 and 13. The store reports the indices 0,
  1 and 2 as unreferenced; the root 11 is being uploaded.
\<close>

definition demo_lib :: "(nat, nat, nat) rhpv4" where
  "demo_lib = \<lparr> SectorSize = 4, MaxSectorBatchSize = 2, Prices = (\<lambda>s. s),
      usage_Add = (+), usage_RenterCost = (\<lambda>u. u), usage_Zero = 0 \<rparr>"

definition demo_rev :: V2FileContract where
  "demo_rev = \<lparr> Filesize = 16, RevisionNumber = 5, RenterOutputValue = 100,
      MissedHostOutputValue = 50 \<rparr>"

definition demo_roots :: "u64 \<Rightarrow> u64 \<Rightarrow> Hash256 list" where
  "demo_roots off len =
     (if len = 0 then []
      else if len = 1 then [of_nat (10 + unat off)]
      else [of_nat (10 + unat off), of_nat (11 + unat off)])"

definition demo_bus :: "(nat, nat, nat, nat) Bus" where
  "demo_bus = \<lparr>
     rhp4_LatestRevision = (\<lambda>w hk ip fcid. (Inr demo_rev, Suc w)),
     rhp4_Settings = (\<lambda>w hk ip. (Inr 3, Suc w)),
     rhp4_SectorRoots = (\<lambda>w hk ip pr fcid r off len.
        (Inr \<lparr> roots_Revision = r\<lparr> RevisionNumber := RevisionNumber r + 1 \<rparr>,
               Roots = demo_roots off len,
               roots_Usage = pr * length (demo_roots off len) \<rparr>, Suc w)),
     rhp4_FreeSectors = (\<lambda>w hk ip pr fcid r indices.
        (Inr \<lparr> free_Revision = r\<lparr> RevisionNumber := RevisionNumber r + 1,
                   Filesize := Filesize r - 4 * of_nat (length indices) \<rparr>,
               free_Usage = pr * length indices \<rparr>, Suc w)),
     store_PrunableContractRoots = (\<lambda>w fcid roots. (Inr [0, 1, 2], Suc w)),
     store_RecordContractSpending = (\<lambda>w records. (None, Suc w)) \<rparr>"

definition demo_gc :: "nat \<Rightarrow> GougingBreakdown" where
  "demo_gc s = \<lparr> gb_Gouging = (10 < s),
                 gb_String = (if 10 < s then ''price too high'' else []) \<rparr>"

definition strict_gc :: "nat \<Rightarrow> GougingBreakdown" where
  "strict_gc s = \<lparr> gb_Gouging = (2 < s),
                   gb_String = (if 2 < s then ''price too high'' else []) \<rparr>"

definition demo_cm :: ContractMetadata where
  "demo_cm = \<lparr> cm_ID = 1, cm_HostKey = 2, cm_RevisionNumber = 5, cm_Size = 16 \<rparr>"

definition ahead_cm :: ContractMetadata where
  "ahead_cm = \<lparr> cm_ID = 1, cm_HostKey = 2, cm_RevisionNumber = 9, cm_Size = 16 \<rparr>"

definition demo_pending :: "Hash256 \<rightharpoonup> unit" where
  "demo_pending = [11 \<mapsto> ()]"

text \<open>The same host with a connection that breaks after the first page of roots.\<close>

definition flaky_bus :: "(nat, nat, nat, nat) Bus" where
  "flaky_bus = demo_bus \<lparr> rhp4_SectorRoots := (\<lambda>w hk ip pr fcid r off len.
       if off = 0 then rhp4_SectorRoots demo_bus w hk ip pr fcid r off len
       else (Inl ''connection reset'', Suc w)) \<rparr>"

text \<open>The same host refusing the deletion.\<close>

definition refusing_bus :: "(nat, nat, nat, nat) Bus" where
  "refusing_bus = demo_bus \<lparr> rhp4_FreeSectors := (\<lambda>w hk ip pr fcid r indices.
       (Inl ''host unreachable'', Suc w)) \<rparr>"

text \<open>A host whose pages of roots are always empty.\<close>

definition lazy_bus :: "(nat, nat, nat, nat) Bus" where
  "lazy_bus = demo_bus \<lparr> rhp4_SectorRoots := (\<lambda>w hk ip pr fcid r off len.
       (Inr \<lparr> roots_Revision = r, Roots = [], roots_Usage = 0 \<rparr>, Suc w)) \<rparr>"

text \<open>The two pages of roots that the concrete host serves, and the state of the loop
  after them.\<close>

definition demo_pages :: "(nat, nat, nat) call list" where
  "demo_pages =
     [CallSectorRoots 2 ''host'' 3 1 demo_rev 0 2
        (Inr \<lparr> roots_Revision = demo_rev\<lparr> RevisionNumber := 6 \<rparr>,
               Roots = [10, 11], roots_Usage = 6 \<rparr>),
      CallSectorRoots 2 ''host'' 3 1 (demo_rev\<lparr> RevisionNumber := 6 \<rparr>) 2 2
        (Inr \<lparr> roots_Revision = demo_rev\<lparr> RevisionNumber := 7 \<rparr>,
               Roots = [12, 13], roots_Usage = 6 \<rparr>)]"

definition demo_enumerated :: "nat roots_loop" where
  "demo_enumerated =
     \<lparr> rev = demo_rev\<lparr> RevisionNumber := 7 \<rparr>, sectorRoots = [10, 11, 12, 13],
       offset = 4, rootsUsage = 12 \<rparr>"

text \<open>The log of the whole pass on the concrete instance: both candidates 0 and 2 are
  freed, the pending root at index 1 is left alone.\<close>

definition demo_freed :: "nat RPCFreeSectorsResult" where
  "demo_freed = \<lparr> free_Revision = demo_rev\<lparr> RevisionNumber := 8, Filesize := 8 \<rparr>,
                  free_Usage = 6 \<rparr>"

definition demo_log :: "(nat, nat, nat) call list" where
  "demo_log =
     [CallLatestRevision 2 ''host'' 1 (Inr demo_rev), CallSettings 2 ''host'' (Inr 3)]
     @ demo_pages
     @ [CallPrunableContractRoots 1 [10, 11, 12, 13] (Inr [0, 1, 2]),
        CallFreeSectors 2 ''host'' 3 1 (demo_rev\<lparr> RevisionNumber := 7 \<rparr>) [0, 2]
          (Inr demo_freed),
        CallRecordContractSpending
          [\<lparr> Deletions = 6, FundAccount = 0, SectorRoots = 12, Uploads = 0, ContractID = 1,
              rec_RevisionNumber = 8, rec_Size = 8, MissedHostPayout = 50,
              ValidRenterPayout = 100 \<rparr>]
          None]"

text \<open>With no upload pending there are three candidates, one more than a batch holds.\<close>

definition capped_freed :: "nat RPCFreeSectorsResult" where
  "capped_freed = \<lparr> free_Revision = demo_rev\<lparr> RevisionNumber := 8, Filesize := 8 \<rparr>,
                    free_Usage = 6 \<rparr>"

definition capped_log :: "(nat, nat, nat) call list" where
  "capped_log =
     [CallLatestRevision 2 ''host'' 1 (Inr demo_rev), CallSettings 2 ''host'' (Inr 3)]
     @ demo_pages
     @ [CallPrunableContractRoots 1 [10, 11, 12, 13] (Inr [0, 1, 2]),
        CallFreeSectors 2 ''host'' 3 1 (demo_rev\<lparr> RevisionNumber := 7 \<rparr>) [0, 1]
          (Inr capped_freed),
        CallRecordContractSpending
          [\<lparr> Deletions = 6, FundAccount = 0, SectorRoots = 12, Uploads = 0, ContractID = 1,
              rec_RevisionNumber = 8, rec_Size = 8, MissedHostPayout = 50,
              ValidRenterPayout = 100 \<rparr>]
          None]"

text \<open>The log when the connection breaks after the first page, and when the host
  refuses the deletion.\<close>

definition flaky_log :: "(nat, nat, nat) call list" where
  "flaky_log =
     [CallLatestRevision 2 ''host'' 1 (Inr demo_rev), CallSettings 2 ''host'' (Inr 3),
      CallSectorRoots 2 ''host'' 3 1 demo_rev 0 2
        (Inr \<lparr> roots_Revision = demo_rev\<lparr> RevisionNumber := 6 \<rparr>,
               Roots = [10, 11], roots_Usage = 6 \<rparr>),
      CallSectorRoots 2 ''host'' 3 1 (demo_rev\<lparr> RevisionNumber := 6 \<rparr>) 2 2
        (Inl ''connection reset'')]"

definition refusing_log :: "(nat, nat, nat) call list" where
  "refusing_log =
     [CallLatestRevision 2 ''host'' 1 (Inr demo_rev), CallSettings 2 ''host'' (Inr 3)]
     @ demo_pages
     @ [CallPrunableContractRoots 1 [10, 11, 12, 13] (Inr [0, 1, 2]),
        CallFreeSectors 2 ''host'' 3 1 (demo_rev\<lparr> RevisionNumber := 7 \<rparr>) [0, 2]
          (Inl ''host unreachable'')]"

section \<open>The contract lock\<close>

text \<open>
  Modelled from the spec: the Contract Lock of section 4.1. Its implementation is not among
  the sources (only the request and response types of the acquire, keepalive and release
  endpoints are), so the lock is the state machine that the specification describes: a
  lease has a contract identifier, a holder token, an expiry time, a priority, and is held
  while it is neither released nor expired; \<open>Acquire\<close> queues the caller with its maximal
  wait, lease duration and priority, and the contract, once free, goes to the waiter of
  highest priority, the earliest among equals, with a fresh token and an expiry at the
  lease duration from the grant; \<open>Keepalive\<close> extends the expiry of a held lease and
  \<open>Release\<close> frees a held lease and wakes the best waiter, both leaving the state alone
  for a token that is unknown, released or expired; an expired lease counts as free
  without any caller's action. All operations run under the lock's single mutex, so a
  history is a sequence of events; the passing of time is an event of its own. The state
  keeps every lease ever granted, so that exclusion is a property to prove and not a
  consequence of the representation.
\<close>

record lease =
  l_contract :: FileContractID
  l_token :: nat
  l_expiry :: nat
  l_priority :: int
  l_released :: bool

record waiter =
  w_contract :: FileContractID
  w_deadline :: nat
  w_duration :: nat
  w_priority :: int

record lock_state =
  clock :: nat
  leases :: "lease list"
  waiters :: "waiter list"
  next_token :: nat

datatype lock_event =
    Acquire FileContractID nat nat int
  | Keepalive nat nat
  | Release nat
  | Elapse nat

definition held :: "nat \<Rightarrow> lease \<Rightarrow> bool" where
  "held now l \<longleftrightarrow> \<not> l_released l \<and> now < l_expiry l"

text \<open>The leases on a contract that are outstanding: neither released nor expired.\<close>

definition outstanding :: "lock_state \<Rightarrow> FileContractID \<Rightarrow> lease list" where
  "outstanding s c = filter (\<lambda>l. l_contract l = c \<and> held (clock s) l) (leases s)"

text \<open>The waiter served first: the highest priority, the earliest arrival among equals.\<close>

fun best_waiter :: "waiter list \<Rightarrow> waiter option" where
  "best_waiter [] = None"
| "best_waiter (w # ws) =
     (case best_waiter ws of
        None \<Rightarrow> Some w
      | Some v \<Rightarrow> if w_priority w < w_priority v then Some v else Some w)"

text \<open>A free contract with waiters is granted to the best of them.\<close>

definition wake :: "FileContractID \<Rightarrow> lock_state \<Rightarrow> lock_state" where
  "wake c s =
     (if outstanding s c = [] then
        (case best_waiter (filter (\<lambda>w. w_contract w = c) (waiters s)) of
           None \<Rightarrow> s
         | Some w \<Rightarrow>
             s\<lparr> leases := leases s @ [\<lparr> l_contract = c, l_token = next_token s,
                                        l_expiry = clock s + w_duration w,
                                        l_priority = w_priority w, l_released = False \<rparr>],
                waiters := remove1 w (waiters s),
                next_token := Suc (next_token s) \<rparr>)
      else s)"

text \<open>Waiters whose maximal wait has elapsed give up.\<close>

definition drop_timed_out :: "lock_state \<Rightarrow> lock_state" where
  "drop_timed_out s = s\<lparr> waiters := filter (\<lambda>w. clock s < w_deadline w) (waiters s) \<rparr>"

fun lock_step :: "lock_state \<Rightarrow> lock_event \<Rightarrow> lock_state" where
  "lock_step s (Acquire c maxWait duration priority) =
     drop_timed_out
       (wake c (s\<lparr> waiters := waiters s @ [\<lparr> w_contract = c, w_deadline = clock s + maxWait,
                                             w_duration = duration,
                                             w_priority = priority \<rparr>] \<rparr>))"
| "lock_step s (Keepalive token extension) =
     s\<lparr> leases := map (\<lambda>l. if l_token l = token \<and> held (clock s) l
                             then l\<lparr> l_expiry := l_expiry l + extension \<rparr> else l)
                      (leases s) \<rparr>"
| "lock_step s (Release token) =
     foldr wake
       (map l_contract (filter (\<lambda>l. l_token l = token \<and> held (clock s) l) (leases s)))
       (s\<lparr> leases := map (\<lambda>l. if l_token l = token \<and> held (clock s) l
                               then l\<lparr> l_released := True \<rparr> else l)
                        (leases s) \<rparr>)"
| "lock_step s (Elapse d) =
     (let s' = drop_timed_out (s\<lparr> clock := clock s + d \<rparr>)
      in foldr wake (remdups (map w_contract (waiters s'))) s')"

definition lock_init :: lock_state where
  "lock_init = \<lparr> clock = 0, leases = [], waiters = [], next_token = 0 \<rparr>"

definition lock_run :: "lock_event list \<Rightarrow> lock_state" where
  "lock_run events = foldl lock_step lock_init events"

text \<open>The exclusion invariant: on every contract at most one lease is outstanding.\<close>

definition exclusive :: "lock_state \<Rightarrow> bool" where
  "exclusive s \<longleftrightarrow> (\<forall>c. length (outstanding s c) \<le> 1)"

section \<open>Word arithmetic of the loop bounds\<close>

lemma wf_SectorSize: "wf_protocol lib \<Longrightarrow> SectorSize lib < 2 ^ 63"
  unfolding wf_protocol_def
  by (metis One_nat_def Suc_le_eq le_less_trans nat_mult_1 mult_le_mono1 linorder_not_less less_imp_le)

lemma wf_MaxBatch: "wf_protocol lib \<Longrightarrow> MaxSectorBatchSize lib < 2 ^ 62"
proof -
  assume wf: "wf_protocol lib"
  have "MaxSectorBatchSize lib * 2 \<le> MaxSectorBatchSize lib * SectorSize lib"
    using wf unfolding wf_protocol_def by simp
  also have "\<dots> < 2 ^ 63" using wf unfolding wf_protocol_def by simp
  finally show ?thesis by simp
qed

lemma numsectors_bound:
  assumes "wf_protocol lib"
  shows "unat (numsectors_of lib rev0) < 2 ^ 63"
proof -
  have s: "SectorSize lib < 2 ^ 64" using wf_SectorSize[OF assms] by simp
  have "unat (numsectors_of lib rev0) = unat (Filesize rev0) div SectorSize lib"
    using s by (simp add: numsectors_of_def unat_div unat_of_nat)
  also have "\<dots> \<le> unat (Filesize rev0) div 2"
    using assms unfolding wf_protocol_def by (intro div_le_mono2) simp_all
  also have "\<dots> < 2 ^ 63"
    using unsigned_less[of "Filesize rev0", where 'a=nat] by simp
  finally show ?thesis .
qed

lemma batch_length_min:
  assumes n: "unat n < 2 ^ 63" and m: "MaxSectorBatchSize lib < 2 ^ 62" and lt: "off < n"
  shows "batch_length lib n off = min (of_nat (MaxSectorBatchSize lib)) (n - off)"
proof -
  let ?M = "MaxSectorBatchSize lib"
  let ?len = "of_nat ?M :: u64"
  have ulen: "unat ?len = ?M" using m by (simp add: unat_of_nat)
  have uoff: "unat off < unat n" using lt by (simp add: word_less_nat_alt)
  have usum: "unat (off + ?len) = unat off + ?M"
    using ulen uoff n m by (simp add: unat_word_ariths)
  have usub: "unat (n - off) = unat n - unat off"
    using lt by (simp add: unat_sub word_le_nat_alt word_less_nat_alt)
  show ?thesis
  proof (cases "off + ?len > n")
    case True
    then have "unat n < unat off + ?M" using usum by (simp add: word_less_nat_alt)
    then have "n - off \<le> ?len" using usub ulen uoff by (simp add: word_le_nat_alt)
    then show ?thesis using True by (simp add: batch_length_def Let_def min_def)
  next
    case False
    then have "unat off + ?M \<le> unat n" using usum by (simp add: word_less_nat_alt)
    then have "?len \<le> n - off" using usub ulen uoff by (simp add: word_le_nat_alt)
    then show ?thesis using False by (simp add: batch_length_def Let_def min_def)
  qed
qed

section \<open>The loop and its relation\<close>

lemma fetchRoots_loop_run:
  assumes run: "fetchRoots b lib cm hostIP prices n st io = Some out"
  shows "loop_run b lib cm hostIP prices n st io out"
proof (rule fetchRoots.raw_induct[where P = loop_run, OF _ run], goal_cases)
  case (1 fetchRoots b lib cm hostIP prices numsectors st io out)
  show ?case
  proof (cases "offset st < numsectors")
    case False
    with 1(2) show ?thesis by (auto intro: loop_done)
  next
    case True
    obtain r w' where r: "rhp4_SectorRoots b (fst io) (cm_HostKey cm) hostIP prices (cm_ID cm)
        (rev st) (offset st) (batch_length lib numsectors (offset st)) = (r, w')"
      by (cases "rhp4_SectorRoots b (fst io) (cm_HostKey cm) hostIP prices (cm_ID cm)
        (rev st) (offset st) (batch_length lib numsectors (offset st))")
    show ?thesis
    proof (cases r)
      case (Inl err)
      with 1(2) True r show ?thesis by (auto simp: Let_def intro: loop_fail)
    next
      case (Inr res)
      with 1(2) True r have "fetchRoots b lib cm hostIP prices numsectors
          \<lparr> rev = roots_Revision res, sectorRoots = sectorRoots st @ Roots res,
            offset = offset st + of_nat (length (Roots res)),
            rootsUsage = usage_Add lib (rootsUsage st) (roots_Usage res) \<rparr>
          (w', snd io @ [CallSectorRoots (cm_HostKey cm) hostIP prices (cm_ID cm) (rev st)
                        (offset st) (batch_length lib numsectors (offset st)) (Inr res)]) = Some out"
        by (simp add: Let_def)
      from 1(1)[OF this] True r Inr show ?thesis by (auto intro: loop_page)
    qed
  qed
qed

lemma loop_run_fetchRoots:
  "loop_run b lib cm hostIP prices n st io out \<Longrightarrow>
   fetchRoots b lib cm hostIP prices n st io = Some out"
proof (induction rule: loop_run.induct)
  case (loop_done st io)
  then show ?case by (subst fetchRoots.simps) simp
next
  case (loop_fail st io err w')
  then show ?case by (subst fetchRoots.simps) (simp add: Let_def)
next
  case (loop_page st io res w' out)
  then show ?case by (subst fetchRoots.simps) (simp add: Let_def)
qed

section \<open>The log of the loop\<close>

lemma page_results_append: "page_results (xs @ ys) = page_results xs @ page_results ys"
  by (simp add: page_results_def map_filter_def)

lemma free_calls_append: "free_calls (xs @ ys) = free_calls xs @ free_calls ys"
  by (simp add: free_calls_def map_filter_def)

lemma prunable_calls_append: "prunable_calls (xs @ ys) = prunable_calls xs @ prunable_calls ys"
  by (simp add: prunable_calls_def map_filter_def)

lemma recorded_append: "recorded (xs @ ys) = recorded xs @ recorded ys"
  by (simp add: recorded_def map_filter_def)

lemma page_results_Nil: "page_results [] = []"
  by (simp add: page_results_def map_filter_simps)

lemma page_results_Cons_Inr:
  "page_results (CallSectorRoots hk ip pr fcid r off len (Inr res) # cs) = res # page_results cs"
  by (simp add: page_results_def page_of_def map_filter_simps)

lemma page_results_Cons_Inl:
  "page_results (CallSectorRoots hk ip pr fcid r off len (Inl e) # cs) = page_results cs"
  by (simp add: page_results_def page_of_def map_filter_simps)

lemma sum_usage_Nil: "sum_usage lib u [] = u"
  by (simp add: sum_usage_def page_results_Nil)

lemma sum_usage_Cons_Inr:
  "sum_usage lib u (CallSectorRoots hk ip pr fcid r off len (Inr res) # cs)
     = sum_usage lib (usage_Add lib u (roots_Usage res)) cs"
  by (simp add: sum_usage_def page_results_Cons_Inr)

lemma sum_usage_Cons_Inl:
  "sum_usage lib u (CallSectorRoots hk ip pr fcid r off len (Inl e) # cs) = sum_usage lib u cs"
  by (simp add: sum_usage_def page_results_Cons_Inl)

lemma pages_chain_others:
  "pages_chain f n r off pages \<Longrightarrow>
   free_calls pages = [] \<and> prunable_calls pages = [] \<and> recorded pages = []"
proof (induction pages arbitrary: r off)
  case Nil
  then show ?case
    by (simp add: free_calls_def prunable_calls_def recorded_def map_filter_simps)
next
  case (Cons c cs)
  then show ?case
    by (cases c)
       (auto simp: free_calls_def prunable_calls_def recorded_def map_filter_simps
          free_of_def prunable_of_def record_of_def split: sum.splits)
qed

lemma pages_chain_cong:
  "(\<And>off. off < n \<Longrightarrow> f off = g off) \<Longrightarrow> pages_chain f n r off pages = pages_chain g n r off pages"
proof (induction pages arbitrary: r off)
  case Nil
  then show ?case by simp
next
  case (Cons c cs)
  then show ?case by (cases c) (auto split: sum.splits)
qed

lemma loop_run_log:
  assumes "loop_run b lib cm hostIP prices n st io y"
  shows "\<exists>pages. snd (snd y) = snd io @ pages
           \<and> pages_chain (batch_length lib n) n (rev st) (offset st) pages
           \<and> (\<forall>st'. fst y = Inr st' \<longrightarrow>
                  sectorRoots st' = sectorRoots st @ concat (map Roots (page_results pages))
                \<and> rootsUsage st' = sum_usage lib (rootsUsage st) pages
                \<and> offset st' = offset st + of_nat (length (concat (map Roots (page_results pages))))
                \<and> \<not> offset st' < n)
           \<and> (\<forall>e. fst y = Inl e \<longrightarrow> (\<exists>msg. e = SectorsFetchFailed msg))"
  using assms
proof (induction rule: loop_run.induct)
  case (loop_done st io)
  then show ?case
    by (intro exI[of _ "[]"]) (simp add: page_results_Nil sum_usage_Nil)
next
  case (loop_fail st io err w')
  show ?case
    by (rule exI[of _ "[CallSectorRoots (cm_HostKey cm) hostIP prices (cm_ID cm) (rev st)
           (offset st) (batch_length lib n (offset st)) (Inl err)]"])
       (use loop_fail in simp)
next
  case (loop_page st io res w' out)
  then obtain pages where p: "snd (snd out) = (snd io @ [CallSectorRoots (cm_HostKey cm) hostIP prices (cm_ID cm) (rev st)
           (offset st) (batch_length lib n (offset st)) (Inr res)]) @ pages"
     and c: "pages_chain (batch_length lib n) n (roots_Revision res)
               (offset st + of_nat (length (Roots res))) pages"
     and s: "\<forall>st'. fst out = Inr st' \<longrightarrow>
                  sectorRoots st' = (sectorRoots st @ Roots res) @ concat (map Roots (page_results pages))
                \<and> rootsUsage st' = sum_usage lib (usage_Add lib (rootsUsage st) (roots_Usage res)) pages
                \<and> offset st' = (offset st + of_nat (length (Roots res))) + of_nat (length (concat (map Roots (page_results pages))))
                \<and> \<not> offset st' < n"
     and e: "\<forall>e. fst out = Inl e \<longrightarrow> (\<exists>msg. e = SectorsFetchFailed msg)"
    by auto
  show ?case
    by (rule exI[of _ "CallSectorRoots (cm_HostKey cm) hostIP prices (cm_ID cm) (rev st)
           (offset st) (batch_length lib n (offset st)) (Inr res) # pages"])
       (use loop_page(1) p c s e in \<open>auto simp add: page_results_Cons_Inr sum_usage_Cons_Inr\<close>)
qed

section \<open>Termination and the number of roots\<close>

lemma batch_length_nonzero:
  assumes n: "unat n < 2 ^ 63" and m1: "1 \<le> MaxSectorBatchSize lib"
    and m: "MaxSectorBatchSize lib < 2 ^ 62" and lt: "off < n"
  shows "batch_length lib n off \<noteq> 0"
proof -
  have "unat (of_nat (MaxSectorBatchSize lib) :: u64) = MaxSectorBatchSize lib"
    using m by (simp add: unat_of_nat)
  then have a: "(of_nat (MaxSectorBatchSize lib) :: u64) \<noteq> 0"
    using m1 by (metis not_one_le_zero unat_0)
  have b: "n - off \<noteq> 0" using lt by simp
  show ?thesis
    using a b by (simp add: batch_length_min[OF n m lt] min_def)
qed

lemma offset_advance:
  assumes n: "unat (n :: u64) < 2 ^ 63" and lt: "off < n" and l: "l < 2 ^ 63"
  shows "unat (off + of_nat l) = unat off + l"
proof -
  have "unat off < unat n" using lt by (simp add: word_less_nat_alt)
  then have "unat off + l < 2 ^ 64" using n l by simp
  moreover have "unat (of_nat l :: u64) = l" using l by (simp add: unat_of_nat)
  ultimately show ?thesis by (simp add: unat_word_ariths)
qed

lemma fetchRoots_returns:
  assumes resp: "responsive b" and sl: "go_slices b"
    and n: "unat n < 2 ^ 63" and m1: "1 \<le> MaxSectorBatchSize lib"
    and m: "MaxSectorBatchSize lib < 2 ^ 62"
  shows "fetchRoots b lib cm hostIP prices n st io \<noteq> None"
proof (induction "unat n - unat (offset st)" arbitrary: st io rule: less_induct)
  case less
  show ?case
  proof (cases "offset st < n")
    case False
    then show ?thesis by (subst fetchRoots.simps) simp
  next
    case True
    let ?len = "batch_length lib n (offset st)"
    obtain r w' where r: "rhp4_SectorRoots b (fst io) (cm_HostKey cm) hostIP prices (cm_ID cm)
        (rev st) (offset st) ?len = (r, w')"
      by (cases "rhp4_SectorRoots b (fst io) (cm_HostKey cm) hostIP prices (cm_ID cm)
        (rev st) (offset st) ?len")
    show ?thesis
    proof (cases r)
      case (Inl err)
      with True r show ?thesis by (subst fetchRoots.simps) (simp add: Let_def)
    next
      case (Inr res)
      have len0: "?len \<noteq> 0" by (rule batch_length_nonzero[OF n m1 m True])
      have l1: "1 \<le> length (Roots res)"
        using resp len0 r Inr unfolding responsive_def by blast
      have l2: "length (Roots res) < 2 ^ 63"
        using sl r Inr unfolding go_slices_def by blast
      let ?st' = "\<lparr> rev = roots_Revision res, sectorRoots = sectorRoots st @ Roots res,
            offset = offset st + of_nat (length (Roots res)),
            rootsUsage = usage_Add lib (rootsUsage st) (roots_Usage res) \<rparr>"
      have adv: "unat (offset ?st') = unat (offset st) + length (Roots res)"
        using offset_advance[OF n True l2] by simp
      have "unat (offset st) < unat n" using True by (simp add: word_less_nat_alt)
      then have "unat n - unat (offset ?st') < unat n - unat (offset st)"
        using adv l1 by linarith
      from less[OF this] have
        "fetchRoots b lib cm hostIP prices n ?st'
           (w', snd io @ [CallSectorRoots (cm_HostKey cm) hostIP prices (cm_ID cm) (rev st)
                        (offset st) ?len (Inr res)]) \<noteq> None" .
      with True r Inr show ?thesis by (subst fetchRoots.simps) (simp add: Let_def)
    qed
  qed
qed

lemma loop_run_exact:
  assumes "loop_run b lib cm hostIP prices n st io y"
    and "unat n < 2 ^ 63" and "MaxSectorBatchSize lib < 2 ^ 62"
    and "length (sectorRoots st) = unat (offset st)" and "offset st \<le> n"
    and "\<forall>c \<in> set (drop (length (snd io)) (snd (snd y))). page_within c"
    and "fst y = Inr st'"
  shows "length (sectorRoots st') = unat n"
  using assms
proof (induction rule: loop_run.induct)
  case (loop_done st io)
  then have "offset st = n" by simp
  with loop_done show ?case by simp
next
  case (loop_fail st io err w')
  then show ?case by simp
next
  case (loop_page st io res w' out)
  let ?len = "batch_length lib n (offset st)"
  let ?c = "CallSectorRoots (cm_HostKey cm) hostIP prices (cm_ID cm) (rev st)
                        (offset st) ?len (Inr res)"
  from loop_run_log[OF loop_page(3)] obtain pages where
    p: "snd (snd out) = (snd io @ [?c]) @ pages" by auto
  then have d: "drop (length (snd io)) (snd (snd out)) = ?c # pages" by simp
  have d': "drop (length (snd io @ [?c])) (snd (snd out)) = pages"
    by (simp add: p)
  from loop_page.prems(5) have within: "\<forall>c \<in> set (?c # pages). page_within c"
    unfolding d .
  then have l: "length (Roots res) \<le> unat ?len" by (simp add: page_within_def)
  have "?len \<le> n - offset st"
    using batch_length_min[OF loop_page.prems(1,2) loop_page(1)] by simp
  then have "unat ?len \<le> unat n - unat (offset st)"
    using loop_page(1) by (simp add: word_le_nat_alt unat_sub word_less_nat_alt)
  with l have le: "unat (offset st) + length (Roots res) \<le> unat n"
    using loop_page(1) by (simp add: word_less_nat_alt)
  then have l63: "length (Roots res) < 2 ^ 63" using loop_page.prems(1) by simp
  have adv: "unat (offset st + of_nat (length (Roots res))) = unat (offset st) + length (Roots res)"
    by (rule offset_advance[OF loop_page.prems(1) loop_page(1) l63])
  have le': "offset st + of_nat (length (Roots res)) \<le> n"
    using adv le by (simp add: word_le_nat_alt)
  have w': "\<forall>c \<in> set (drop (length (snd (w', snd io @ [?c]))) (snd (snd out))). page_within c"
    using within d' by simp
  show ?case
    by (rule loop_page.IH[OF loop_page.prems(1,2) _ _ w' loop_page.prems(6)])
       (use loop_page.prems adv le' in simp_all)
qed

section \<open>The in-place exclusion loop is a filter\<close>

lemma excludePending_inplace:
  assumes "k \<le> i" and "i \<le> length arr"
  shows "(if \<forall>x \<in> set (drop i arr). unat x < length roots
          then excludePending roots pend arr i k
                 = Inr (take k arr @ filter (\<lambda>x. pend (roots ! unat x) = None) (drop i arr))
          else \<exists>x \<in> set (drop i arr). \<not> unat x < length roots
                 \<and> excludePending roots pend arr i k = Inl (IndexOutOfRange x (length roots)))"
  using assms
proof (induction roots pend arr i k rule: excludePending.induct)
  case (1 roots pend arr i k)
  show ?case
  proof (cases "i < length arr")
    case False
    then show ?thesis by (subst excludePending.simps) simp
  next
    case True
    then have d: "drop i arr = arr ! i # drop (Suc i) arr" by (simp add: Cons_nth_drop_Suc)
    show ?thesis
    proof (cases "unat (arr ! i) < length roots")
      case False
      then have "excludePending roots pend arr i k = Inl (IndexOutOfRange (arr ! i) (length roots))"
        using True by (subst excludePending.simps) (simp add: Let_def)
      with False d show ?thesis by auto
    next
      case inr: True
      show ?thesis
      proof (cases "pend (roots ! unat (arr ! i))")
        case (Some u)
        have step: "excludePending roots pend arr i k = excludePending roots pend arr (Suc i) k"
          using True inr Some by (subst excludePending.simps) (simp add: Let_def)
        have ih: "(if \<forall>x \<in> set (drop (Suc i) arr). unat x < length roots
          then excludePending roots pend arr (Suc i) k
                 = Inr (take k arr @ filter (\<lambda>x. pend (roots ! unat x) = None) (drop (Suc i) arr))
          else \<exists>x \<in> set (drop (Suc i) arr). \<not> unat x < length roots
                 \<and> excludePending roots pend arr (Suc i) k = Inl (IndexOutOfRange x (length roots)))"
          using "1.IH"(2)[OF True refl inr Some] "1.prems" True by simp
        show ?thesis using ih inr Some unfolding d step by (auto split: if_splits)
      next
        case None
        have step: "excludePending roots pend arr i k
                      = excludePending roots pend (arr[k := arr ! i]) (Suc i) (Suc k)"
          using True inr None by (subst excludePending.simps) (simp add: Let_def)
        have k: "k < length arr" using "1.prems" True by simp
        have dd: "drop (Suc i) (arr[k := arr ! i]) = drop (Suc i) arr"
          using "1.prems" by (simp add: drop_update_cancel)
        have tt: "take (Suc k) (arr[k := arr ! i]) = take k arr @ [arr ! i]"
          using k by (simp add: take_Suc_conv_app_nth)
        have ih: "(if \<forall>x \<in> set (drop (Suc i) arr). unat x < length roots
          then excludePending roots pend (arr[k := arr ! i]) (Suc i) (Suc k)
                 = Inr ((take k arr @ [arr ! i]) @ filter (\<lambda>x. pend (roots ! unat x) = None) (drop (Suc i) arr))
          else \<exists>x \<in> set (drop (Suc i) arr). \<not> unat x < length roots
                 \<and> excludePending roots pend (arr[k := arr ! i]) (Suc i) (Suc k) = Inl (IndexOutOfRange x (length roots)))"
          using "1.IH"(1)[OF True refl inr None] "1.prems" True unfolding dd tt by simp
        show ?thesis using ih inr None unfolding d step by (auto split: if_splits)
      qed
    qed
  qed
qed

lemma excludePending_filter:
  "\<forall>x \<in> set indices. unat x < length roots \<Longrightarrow>
   excludePending roots pend indices 0 0 = Inr (filter (\<lambda>x. pend (roots ! unat x) = None) indices)"
  using excludePending_inplace[of 0 0 indices roots pend] by simp

lemma excludePending_panic:
  "\<not> (\<forall>x \<in> set indices. unat x < length roots) \<Longrightarrow>
   \<exists>x \<in> set indices. \<not> unat x < length roots
      \<and> excludePending roots pend indices 0 0 = Inl (IndexOutOfRange x (length roots))"
  using excludePending_inplace[of 0 0 indices roots pend] by (auto split: if_splits)

lemma excludePending_Inr:
  "excludePending roots pend indices 0 0 = Inr filtered \<Longrightarrow>
   (\<forall>x \<in> set indices. unat x < length roots)
   \<and> filtered = filter (\<lambda>x. pend (roots ! unat x) = None) indices"
  using excludePending_filter[of indices roots pend] excludePending_panic[of indices roots pend]
  by (cases "\<forall>x \<in> set indices. unat x < length roots") auto

lemma take_batchSize:
  "take (if m > length xs then length xs else m) xs = take m xs"
  by simp

section \<open>The ways \<open>pruneContract\<close> ends\<close>

lemma pruneFetched_cases:
  assumes run: "pruneFetched b lib cm hostIP prices pend st io = (out, w', log')"
  obtains
    (store_failed) err where
      "store_PrunableContractRoots b (fst io) (cm_ID cm) (sectorRoots st) = (Inl err, w')"
      "out = Inl (PrunableRootsFailed err)"
      "log' = snd io @ [CallPrunableContractRoots (cm_ID cm) (sectorRoots st) (Inl err)]"
  | (out_of_range) indices x where
      "store_PrunableContractRoots b (fst io) (cm_ID cm) (sectorRoots st) = (Inr indices, w')"
      "x \<in> set indices" "\<not> unat x < length (sectorRoots st)"
      "out = Inl (IndexOutOfRange x (length (sectorRoots st)))"
      "log' = snd io @ [CallPrunableContractRoots (cm_ID cm) (sectorRoots st) (Inr indices)]"
  | (free_failed) indices w4 err where
      "store_PrunableContractRoots b (fst io) (cm_ID cm) (sectorRoots st) = (Inr indices, w4)"
      "\<forall>x \<in> set indices. unat x < length (sectorRoots st)"
      "rhp4_FreeSectors b w4 (cm_HostKey cm) hostIP prices (cm_ID cm) (rev st)
         (take (MaxSectorBatchSize lib) (candidates (sectorRoots st) pend indices)) = (Inl err, w')"
      "out = Inl (FreeSectorsFailed err)"
      "log' = snd io @ [CallPrunableContractRoots (cm_ID cm) (sectorRoots st) (Inr indices),
                        CallFreeSectors (cm_HostKey cm) hostIP prices (cm_ID cm) (rev st)
                          (take (MaxSectorBatchSize lib) (candidates (sectorRoots st) pend indices))
                          (Inl err)]"
  | (freed) indices w4 res w5 where
      "store_PrunableContractRoots b (fst io) (cm_ID cm) (sectorRoots st) = (Inr indices, w4)"
      "\<forall>x \<in> set indices. unat x < length (sectorRoots st)"
      "rhp4_FreeSectors b w4 (cm_HostKey cm) hostIP prices (cm_ID cm) (rev st)
         (take (MaxSectorBatchSize lib) (candidates (sectorRoots st) pend indices)) = (Inr res, w5)"
      "out = Inr (pruneResponse lib (free_Revision res)
                    (of_nat (length (candidates (sectorRoots st) pend indices)))
                    (take (MaxSectorBatchSize lib) (candidates (sectorRoots st) pend indices)))"
      "log' = snd io @ [CallPrunableContractRoots (cm_ID cm) (sectorRoots st) (Inr indices),
                        CallFreeSectors (cm_HostKey cm) hostIP prices (cm_ID cm) (rev st)
                          (take (MaxSectorBatchSize lib) (candidates (sectorRoots st) pend indices))
                          (Inr res)]
                @ (if usage_RenterCost lib (usage_Add lib (rootsUsage st) (free_Usage res)) \<noteq> 0
                   then [CallRecordContractSpending
                           [spendingRecord lib cm (rootsUsage st) (free_Usage res) (free_Revision res)]
                           (fst (store_RecordContractSpending b w5
                              [spendingRecord lib cm (rootsUsage st) (free_Usage res) (free_Revision res)]))]
                   else [])"
proof -
  obtain r4 w4 where s4: "store_PrunableContractRoots b (fst io) (cm_ID cm) (sectorRoots st) = (r4, w4)"
    by (cases "store_PrunableContractRoots b (fst io) (cm_ID cm) (sectorRoots st)")
  show thesis
  proof (cases r4)
    case (Inl err)
    with run s4 show thesis
      by (intro store_failed[of err]) (auto simp: pruneFetched_def Let_def)
  next
    case (Inr indices)
    show thesis
    proof (cases "\<forall>x \<in> set indices. unat x < length (sectorRoots st)")
      case False
      from excludePending_panic[OF False, of pend] obtain x where
        x: "x \<in> set indices" "\<not> unat x < length (sectorRoots st)"
        "excludePending (sectorRoots st) pend indices 0 0
           = Inl (IndexOutOfRange x (length (sectorRoots st)))"
        by blast
      with run s4 Inr show thesis
        by (intro out_of_range[of indices x]) (auto simp: pruneFetched_def Let_def)
    next
      case True
      let ?del = "take (MaxSectorBatchSize lib) (candidates (sectorRoots st) pend indices)"
      have ex: "excludePending (sectorRoots st) pend indices 0 0
                  = Inr (candidates (sectorRoots st) pend indices)"
        using excludePending_filter[OF True] by (simp add: candidates_def)
      obtain r5 w5 where s5: "rhp4_FreeSectors b w4 (cm_HostKey cm) hostIP prices (cm_ID cm)
          (rev st) ?del = (r5, w5)"
        by (cases "rhp4_FreeSectors b w4 (cm_HostKey cm) hostIP prices (cm_ID cm) (rev st) ?del")
      show thesis
      proof (cases r5)
        case (Inl err)
        with run s4 Inr ex s5 True show thesis
          by (intro free_failed[of indices w4 err])
             (auto simp: pruneFetched_def Let_def take_batchSize)
      next
        case res: (Inr res)
        with run s4 Inr ex s5 True show thesis
          by (intro freed[of indices w4 res w5])
             (auto simp: pruneFetched_def Let_def take_batchSize split: prod.splits if_splits)
      qed
    qed
  qed
qed

lemma pruneContract_cases:
  assumes run: "pruneContract b lib gc cm hostIP pend w = Some (out, w', log')"
  obtains
    (revision_failed) err where
      "rhp4_LatestRevision b w (cm_HostKey cm) hostIP (cm_ID cm) = (Inl err, w')"
      "out = Inl (RevisionFetchFailed err)"
      "log' = [CallLatestRevision (cm_HostKey cm) hostIP (cm_ID cm) (Inl err)]"
  | (stale) rev0 where
      "rhp4_LatestRevision b w (cm_HostKey cm) hostIP (cm_ID cm) = (Inr rev0, w')"
      "RevisionNumber rev0 < cm_RevisionNumber cm"
      "out = Inl (StaleRevision (RevisionNumber rev0) (cm_RevisionNumber cm))"
      "log' = [CallLatestRevision (cm_HostKey cm) hostIP (cm_ID cm) (Inr rev0)]"
  | (settings_failed) rev0 w1 err where
      "rhp4_LatestRevision b w (cm_HostKey cm) hostIP (cm_ID cm) = (Inr rev0, w1)"
      "\<not> RevisionNumber rev0 < cm_RevisionNumber cm"
      "rhp4_Settings b w1 (cm_HostKey cm) hostIP = (Inl err, w')"
      "out = Inl (PricesFetchFailed err)"
      "log' = [CallLatestRevision (cm_HostKey cm) hostIP (cm_ID cm) (Inr rev0),
               CallSettings (cm_HostKey cm) hostIP (Inl err)]"
  | (gouging) rev0 w1 settings where
      "rhp4_LatestRevision b w (cm_HostKey cm) hostIP (cm_ID cm) = (Inr rev0, w1)"
      "\<not> RevisionNumber rev0 < cm_RevisionNumber cm"
      "rhp4_Settings b w1 (cm_HostKey cm) hostIP = (Inr settings, w')"
      "gb_Gouging (gc settings)"
      "out = Inl (HostGouging (gb_String (gc settings)))"
      "log' = [CallLatestRevision (cm_HostKey cm) hostIP (cm_ID cm) (Inr rev0),
               CallSettings (cm_HostKey cm) hostIP (Inr settings)]"
  | (enumeration_failed) rev0 w1 settings w2 e where
      "rhp4_LatestRevision b w (cm_HostKey cm) hostIP (cm_ID cm) = (Inr rev0, w1)"
      "\<not> RevisionNumber rev0 < cm_RevisionNumber cm"
      "rhp4_Settings b w1 (cm_HostKey cm) hostIP = (Inr settings, w2)"
      "\<not> gb_Gouging (gc settings)"
      "enumerateSectors b lib cm hostIP (Prices lib settings) rev0
         (w2, [CallLatestRevision (cm_HostKey cm) hostIP (cm_ID cm) (Inr rev0),
               CallSettings (cm_HostKey cm) hostIP (Inr settings)]) = Some (Inl e, w', log')"
      "out = Inl e"
  | (enumerated) rev0 w1 settings w2 st w3 log3 where
      "rhp4_LatestRevision b w (cm_HostKey cm) hostIP (cm_ID cm) = (Inr rev0, w1)"
      "\<not> RevisionNumber rev0 < cm_RevisionNumber cm"
      "rhp4_Settings b w1 (cm_HostKey cm) hostIP = (Inr settings, w2)"
      "\<not> gb_Gouging (gc settings)"
      "enumerateSectors b lib cm hostIP (Prices lib settings) rev0
         (w2, [CallLatestRevision (cm_HostKey cm) hostIP (cm_ID cm) (Inr rev0),
               CallSettings (cm_HostKey cm) hostIP (Inr settings)]) = Some (Inr st, w3, log3)"
      "pruneFetched b lib cm hostIP (Prices lib settings) pend st (w3, log3) = (out, w', log')"
proof -
  obtain r1 w1 where s1: "rhp4_LatestRevision b w (cm_HostKey cm) hostIP (cm_ID cm) = (r1, w1)"
    by (cases "rhp4_LatestRevision b w (cm_HostKey cm) hostIP (cm_ID cm)")
  show thesis
  proof (cases r1)
    case (Inl err)
    with run s1 show thesis
      by (intro revision_failed[of err]) (auto simp: pruneContract_def Let_def)
  next
    case r1: (Inr rev0)
    show thesis
    proof (cases "RevisionNumber rev0 < cm_RevisionNumber cm")
      case True
      with run s1 r1 show thesis
        by (intro stale[of rev0]) (auto simp: pruneContract_def Let_def)
    next
      case fresh: False
      obtain r2 w2 where s2: "rhp4_Settings b w1 (cm_HostKey cm) hostIP = (r2, w2)"
        by (cases "rhp4_Settings b w1 (cm_HostKey cm) hostIP")
      show thesis
      proof (cases r2)
        case (Inl err)
        with run s1 r1 fresh s2 show thesis
          by (intro settings_failed[of rev0 w1 err]) (auto simp: pruneContract_def Let_def)
      next
        case r2: (Inr settings)
        show thesis
        proof (cases "gb_Gouging (gc settings)")
          case True
          with run s1 r1 fresh s2 r2 show thesis
            by (intro gouging[of rev0 w1 settings]) (auto simp: pruneContract_def Let_def)
        next
          case fair: False
          let ?log2 = "[CallLatestRevision (cm_HostKey cm) hostIP (cm_ID cm) (Inr rev0),
               CallSettings (cm_HostKey cm) hostIP (Inr settings)]"
          from run s1 r1 fresh s2 r2 fair have
            c: "(case enumerateSectors b lib cm hostIP (Prices lib settings) rev0 (w2, ?log2) of
                  None \<Rightarrow> None
                | Some (Inl e, io3) \<Rightarrow> Some (Inl e, io3)
                | Some (Inr st, io3) \<Rightarrow>
                    Some (pruneFetched b lib cm hostIP (Prices lib settings) pend st io3))
                = Some (out, w', log')"
            by (simp add: pruneContract_def Let_def)
          then obtain y where y: "enumerateSectors b lib cm hostIP (Prices lib settings) rev0
              (w2, ?log2) = Some y"
            by (cases "enumerateSectors b lib cm hostIP (Prices lib settings) rev0 (w2, ?log2)") auto
          obtain o3 w3 log3 where y3: "y = (o3, w3, log3)" by (cases y)
          show thesis
          proof (cases o3)
            case (Inl e)
            with c y y3 s1 r1 fresh s2 r2 fair show thesis
              by (intro enumeration_failed[of rev0 w1 settings w2 e]) auto
          next
            case (Inr st)
            with c y y3 s1 r1 fresh s2 r2 fair show thesis
              by (intro enumerated[of rev0 w1 settings w2 st w3 log3]) auto
          qed
        qed
      qed
    qed
  qed
qed

section \<open>Unfolding the model on the concrete instance\<close>

lemmas demo_defs = demo_lib_def demo_rev_def demo_roots_def demo_bus_def demo_gc_def
  strict_gc_def demo_cm_def ahead_cm_def demo_pending_def flaky_bus_def refusing_bus_def
  lazy_bus_def

lemmas run_defs = pruneContract_def enumerateSectors_def numsectors_of_def batch_length_def
  pruneFetched_def spendingRecord_def pruneResponse_def Let_def

section \<open>The pre-conditions\<close>

text \<open>
  Claim C2. Whenever the host's latest revision is fetched: if its revision number is
  strictly below the contract's last-known revision number, \<open>pruneContract\<close> returns the
  stale-revision error and the only call it has made is that fetch; and the stale-revision
  error is returned exactly when the fetched number is below the known one.
\<close>

theorem pruneContract_stale_revision:
  assumes fetched: "rhp4_LatestRevision b w (cm_HostKey cm) hostIP (cm_ID cm) = (Inr rev0, w1)"
  shows "(RevisionNumber rev0 < cm_RevisionNumber cm \<longrightarrow>
            pruneContract b lib gc cm hostIP pendingUploads w
              = Some (Inl (StaleRevision (RevisionNumber rev0) (cm_RevisionNumber cm)), w1,
                      [CallLatestRevision (cm_HostKey cm) hostIP (cm_ID cm) (Inr rev0)]))
       \<and> ((\<exists>x y. result_of (pruneContract b lib gc cm hostIP pendingUploads w)
                    = Some (Inl (StaleRevision x y)))
            \<longleftrightarrow> RevisionNumber rev0 < cm_RevisionNumber cm)"
proof -
  have stale: "pruneContract b lib gc cm hostIP pendingUploads w
      = Some (Inl (StaleRevision (RevisionNumber rev0) (cm_RevisionNumber cm)), w1,
              [CallLatestRevision (cm_HostKey cm) hostIP (cm_ID cm) (Inr rev0)])"
    if "RevisionNumber rev0 < cm_RevisionNumber cm"
    using fetched that by (simp add: pruneContract_def)
  have fresh: False
    if lt: "\<not> RevisionNumber rev0 < cm_RevisionNumber cm"
      and res: "result_of (pruneContract b lib gc cm hostIP pendingUploads w)
                  = Some (Inl (StaleRevision x y))" for x y
  proof -
    from res obtain w' log' where run:
      "pruneContract b lib gc cm hostIP pendingUploads w = Some (Inl (StaleRevision x y), w', log')"
      by (auto simp: result_of_def)
    from run show False
    proof (cases rule: pruneContract_cases)
      case (revision_failed err)
      then show ?thesis by simp
    next
      case (stale r)
      with fetched lt show ?thesis by simp
    next
      case (settings_failed r w1 err)
      then show ?thesis by simp
    next
      case (gouging r w1 settings)
      then show ?thesis by simp
    next
      case (enumeration_failed r w1 settings w2 e)
      from fetchRoots_loop_run[OF enumeration_failed(5)[unfolded enumerateSectors_def]]
      have "\<exists>msg. e = SectorsFetchFailed msg"
        using loop_run_log by fastforce
      with enumeration_failed(6) show ?thesis by auto
    next
      case (enumerated r w1 settings w2 st w3 log3)
      from enumerated(6) show ?thesis
        by (cases rule: pruneFetched_cases) simp_all
    qed
  qed
  show ?thesis
    using stale fresh by (auto simp: result_of_def)
qed

theorem pruneContract_stale_revision_witness:
  "rhp4_LatestRevision demo_bus 0 (cm_HostKey ahead_cm) ''host'' (cm_ID ahead_cm)
     = (Inr demo_rev, 1)
   \<and> RevisionNumber demo_rev < cm_RevisionNumber ahead_cm
   \<and> pruneContract demo_bus demo_lib demo_gc ahead_cm ''host'' demo_pending 0
       = Some (Inl (StaleRevision 5 9), 1, [CallLatestRevision 2 ''host'' 1 (Inr demo_rev)])"
proof -
  have f: "rhp4_LatestRevision demo_bus 0 (cm_HostKey ahead_cm) ''host'' (cm_ID ahead_cm)
     = (Inr demo_rev, 1)"
    by (simp add: demo_bus_def)
  have lt: "RevisionNumber demo_rev < cm_RevisionNumber ahead_cm"
    by (simp add: demo_rev_def ahead_cm_def)
  show ?thesis
    using pruneContract_stale_revision[OF f, of demo_lib demo_gc demo_pending] f lt
    by (simp add: demo_rev_def ahead_cm_def)
qed

text \<open>
  Claim C3. Whenever the gouging checker flags the settings that were fetched,
  \<open>pruneContract\<close> returns the gouging error after the revision fetch and the settings
  fetch and nothing else: no request for roots, no deletion, no spending record.
\<close>

theorem pruneContract_gouging:
  assumes "rhp4_LatestRevision b w (cm_HostKey cm) hostIP (cm_ID cm) = (Inr rev0, w1)"
    and "\<not> RevisionNumber rev0 < cm_RevisionNumber cm"
    and "rhp4_Settings b w1 (cm_HostKey cm) hostIP = (Inr settings, w2)"
    and "gb_Gouging (gc settings)"
  shows "pruneContract b lib gc cm hostIP pendingUploads w
           = Some (Inl (HostGouging (gb_String (gc settings))), w2,
                   [CallLatestRevision (cm_HostKey cm) hostIP (cm_ID cm) (Inr rev0),
                    CallSettings (cm_HostKey cm) hostIP (Inr settings)])
       \<and> paid_calls (log_of (pruneContract b lib gc cm hostIP pendingUploads w)) = []
       \<and> recorded (log_of (pruneContract b lib gc cm hostIP pendingUploads w)) = []"
  using assms
  by (simp add: pruneContract_def Let_def log_of_def paid_calls_def is_paid_def recorded_def
        map_filter_simps record_of_def)

theorem pruneContract_gouging_witness:
  "rhp4_LatestRevision demo_bus 0 (cm_HostKey demo_cm) ''host'' (cm_ID demo_cm) = (Inr demo_rev, 1)
   \<and> \<not> RevisionNumber demo_rev < cm_RevisionNumber demo_cm
   \<and> rhp4_Settings demo_bus 1 (cm_HostKey demo_cm) ''host'' = (Inr 3, 2)
   \<and> gb_Gouging (strict_gc 3)
   \<and> pruneContract demo_bus demo_lib strict_gc demo_cm ''host'' demo_pending 0
       = Some (Inl (HostGouging ''price too high''), 2,
               [CallLatestRevision 2 ''host'' 1 (Inr demo_rev), CallSettings 2 ''host'' (Inr 3)])"
proof -
  have a: "rhp4_LatestRevision demo_bus 0 (cm_HostKey demo_cm) ''host'' (cm_ID demo_cm)
             = (Inr demo_rev, 1)"
    by (simp add: demo_bus_def)
  have b: "\<not> RevisionNumber demo_rev < cm_RevisionNumber demo_cm"
    by (simp add: demo_rev_def demo_cm_def)
  have c: "rhp4_Settings demo_bus 1 (cm_HostKey demo_cm) ''host'' = (Inr 3, 2)"
    by (simp add: demo_bus_def)
  have d: "gb_Gouging (strict_gc 3)"
    by (simp add: strict_gc_def)
  show ?thesis
    using pruneContract_gouging[where gc = strict_gc and settings = 3, OF a b c d,
        of demo_lib demo_pending] a b c d
    by (simp add: strict_gc_def demo_cm_def)
qed

section \<open>Enumeration of the roots\<close>

lemma enumerateSectors_log:
  assumes run: "enumerateSectors b lib cm hostIP prices rev0 (w, log) = Some (out, w', log')"
  shows "\<exists>pages. log' = log @ pages
           \<and> pages_chain (batch_length lib (numsectors_of lib rev0)) (numsectors_of lib rev0)
                 rev0 0 pages
           \<and> (\<forall>st. out = Inr st \<longrightarrow>
                  sectorRoots st = concat (map Roots (page_results pages))
                \<and> rootsUsage st = sum_usage lib (usage_Zero lib) pages
                \<and> offset st = of_nat (length (sectorRoots st))
                \<and> \<not> offset st < numsectors_of lib rev0)
           \<and> (\<forall>e. out = Inl e \<longrightarrow> (\<exists>msg. e = SectorsFetchFailed msg))"
  using loop_run_log[OF fetchRoots_loop_run[OF run[unfolded enumerateSectors_def]]]
  by auto

lemma enumerateSectors_enough:
  assumes run: "enumerateSectors b lib cm hostIP prices rev0 io = Some (Inr st, w', log')"
  shows "unat (numsectors_of lib rev0) \<le> length (sectorRoots st)"
proof -
  obtain w log where io: "io = (w, log)" by (cases io)
  from enumerateSectors_log[OF run[unfolded io]]
  have o: "offset st = of_nat (length (sectorRoots st))"
    and n: "\<not> offset st < numsectors_of lib rev0"
    by auto
  from n have "unat (numsectors_of lib rev0) \<le> unat (offset st)"
    by (simp add: word_less_nat_alt)
  also have "\<dots> \<le> length (sectorRoots st)"
    unfolding o by (simp add: unat_of_nat)
  finally show ?thesis .
qed

lemma enumerateSectors_exact:
  assumes wf: "wf_protocol lib"
    and run: "enumerateSectors b lib cm hostIP prices rev0 (w, log) = Some (Inr st, w', log @ pages)"
    and within: "\<forall>c \<in> set pages. page_within c"
  shows "length (sectorRoots st) = unat (numsectors_of lib rev0)"
  by (rule loop_run_exact[OF fetchRoots_loop_run[OF run[unfolded enumerateSectors_def]]
        numsectors_bound[OF wf] wf_MaxBatch[OF wf]])
     (use within in simp_all)

text \<open>
  The enumeration from any starting log: the calls it adds are a run of page requests that
  starts at the revision it was given, and its final state holds their roots and the sum
  of their usages.
\<close>

lemma enumerateSectors_chain:
  assumes wf: "wf_protocol lib"
    and run: "enumerateSectors b lib cm hostIP prices rev0 (w, log) = Some (out, w', log')"
  shows "unat (numsectors_of lib rev0) = unat (Filesize rev0) div SectorSize lib
       \<and> (\<exists>pages. log' = log @ pages
            \<and> pages_chain
                 (\<lambda>off. min (of_nat (MaxSectorBatchSize lib)) (numsectors_of lib rev0 - off))
                 (numsectors_of lib rev0) rev0 0 pages
            \<and> (\<forall>st. out = Inr st \<longrightarrow>
                   rootsUsage st = sum_usage lib (usage_Zero lib) pages
                 \<and> sectorRoots st = concat (map Roots (page_results pages))
                 \<and> unat (numsectors_of lib rev0) \<le> length (sectorRoots st)
                 \<and> ((\<forall>c \<in> set pages. page_within c)
                      \<longrightarrow> length (sectorRoots st) = unat (numsectors_of lib rev0))))"
proof -
  let ?n = "numsectors_of lib rev0"
  have s: "SectorSize lib < 2 ^ 64" using wf_SectorSize[OF wf] by simp
  have n: "unat ?n = unat (Filesize rev0) div SectorSize lib"
    using s by (simp add: numsectors_of_def unat_div unat_of_nat)
  from enumerateSectors_log[OF run] obtain pages where
    l: "log' = log @ pages"
    and c: "pages_chain (batch_length lib ?n) ?n rev0 0 pages"
    and st: "\<forall>st. out = Inr st \<longrightarrow>
                  sectorRoots st = concat (map Roots (page_results pages))
                \<and> rootsUsage st = sum_usage lib (usage_Zero lib) pages
                \<and> offset st = of_nat (length (sectorRoots st))
                \<and> \<not> offset st < ?n"
    by blast
  have c': "pages_chain (\<lambda>off. min (of_nat (MaxSectorBatchSize lib)) (?n - off)) ?n rev0 0 pages"
    using c pages_chain_cong[of ?n "batch_length lib ?n"
        "\<lambda>off. min (of_nat (MaxSectorBatchSize lib)) (?n - off)" rev0 0 pages]
      batch_length_min[OF numsectors_bound[OF wf] wf_MaxBatch[OF wf]]
    by simp
  have enough: "unat ?n \<le> length (sectorRoots st)" if o: "out = Inr st" for st
    by (rule enumerateSectors_enough[OF run[unfolded o]])
  have exact: "length (sectorRoots st) = unat ?n"
    if o: "out = Inr st" and w: "\<forall>c \<in> set pages. page_within c" for st
    by (rule enumerateSectors_exact[OF wf run[unfolded o l] w])
  show ?thesis using n l c' st enough exact by blast
qed

lemma demo_wf: "wf_protocol demo_lib"
  by (simp add: wf_protocol_def demo_lib_def)

lemma demo_enumerate:
  "enumerateSectors demo_bus demo_lib demo_cm ''host'' 3 demo_rev (2, [])
     = Some (Inr demo_enumerated, 4, demo_pages)"
  by (simp add: demo_defs run_defs fetchRoots.simps demo_pages_def demo_enumerated_def)


section \<open>Reading the log of a whole run\<close>

lemma page_results_Cons:
  "page_results (c # cs) = (case page_of c of None \<Rightarrow> page_results cs
                            | Some x \<Rightarrow> x # page_results cs)"
  unfolding page_results_def by (simp add: map_filter_simps)

lemma free_calls_Nil: "free_calls [] = []"
  by (simp add: free_calls_def map_filter_simps)

lemma free_calls_Cons:
  "free_calls (c # cs) = (case free_of c of None \<Rightarrow> free_calls cs
                          | Some x \<Rightarrow> x # free_calls cs)"
  unfolding free_calls_def by (simp add: map_filter_simps)

lemma prunable_calls_Nil: "prunable_calls [] = []"
  by (simp add: prunable_calls_def map_filter_simps)

lemma prunable_calls_Cons:
  "prunable_calls (c # cs) = (case prunable_of c of None \<Rightarrow> prunable_calls cs
                              | Some x \<Rightarrow> x # prunable_calls cs)"
  unfolding prunable_calls_def by (simp add: map_filter_simps)

lemma recorded_Nil: "recorded [] = []"
  by (simp add: recorded_def map_filter_simps)

lemma recorded_Cons:
  "recorded (c # cs) = (case record_of c of None \<Rightarrow> recorded cs
                        | Some x \<Rightarrow> x # recorded cs)"
  unfolding recorded_def by (simp add: map_filter_simps)

lemmas obs_defs = page_results_Nil page_results_Cons page_results_append
  free_calls_Nil free_calls_Cons free_calls_append
  prunable_calls_Nil prunable_calls_Cons prunable_calls_append
  recorded_Nil recorded_Cons recorded_append
  free_of_def prunable_of_def record_of_def page_of_def

lemma sum_usage_append_others:
  "page_results ys = [] \<Longrightarrow> sum_usage lib u (xs @ ys) = sum_usage lib u xs"
  by (simp add: sum_usage_def page_results_append)

lemma sum_usage_prefix_others:
  "page_results xs = [] \<Longrightarrow> sum_usage lib u (xs @ ys) = sum_usage lib u ys"
  by (simp add: sum_usage_def page_results_append)

text \<open>What the log holds when the enumeration has returned.\<close>

lemma enumerated_log:
  assumes run: "enumerateSectors b lib cm hostIP prices rev0
                  (w2, [CallLatestRevision hk hostIP fcid r1, CallSettings hk hostIP r2])
                = Some (out, w3, log3)"
  shows "free_calls log3 = [] \<and> prunable_calls log3 = [] \<and> recorded log3 = []
       \<and> (\<forall>st. out = Inr st \<longrightarrow>
              sectorRoots st = concat (map Roots (page_results log3))
            \<and> rootsUsage st = sum_usage lib (usage_Zero lib) log3)"
proof -
  let ?log2 = "[CallLatestRevision hk hostIP fcid r1, CallSettings hk hostIP r2]"
  from enumerateSectors_log[OF run] obtain pages where
    l: "log3 = ?log2 @ pages"
    and c: "pages_chain (batch_length lib (numsectors_of lib rev0)) (numsectors_of lib rev0)
              rev0 0 pages"
    and st: "\<forall>st. out = Inr st \<longrightarrow>
                  sectorRoots st = concat (map Roots (page_results pages))
                \<and> rootsUsage st = sum_usage lib (usage_Zero lib) pages"
    by blast
  have p2: "page_results ?log2 = []" by (simp add: obs_defs)
  have "free_calls ?log2 = []" "prunable_calls ?log2 = []" "recorded ?log2 = []"
    by (simp_all add: obs_defs)
  with pages_chain_others[OF c] have
    "free_calls log3 = [] \<and> prunable_calls log3 = [] \<and> recorded log3 = []"
    unfolding l by (simp add: obs_defs)
  moreover have "page_results log3 = page_results pages"
    unfolding l page_results_append p2 by simp
  moreover have "sum_usage lib u log3 = sum_usage lib u pages" for u
    unfolding l using p2 by (rule sum_usage_prefix_others)
  ultimately show ?thesis using st by simp
qed

text \<open>The observations of a run that returns a response.\<close>

lemma pruneContract_response:
  assumes run: "pruneContract b lib gc cm hostIP pend w = Some (Inr resp, w', log')"
  obtains indices res where
    "prunable_calls log' = [(concat (map Roots (page_results log')), Inr indices)]"
    "\<forall>x \<in> set indices. unat x < length (concat (map Roots (page_results log')))"
    "free_calls log'
       = [(take (MaxSectorBatchSize lib)
             (candidates (concat (map Roots (page_results log'))) pend indices), Inr res)]"
    "resp = pruneResponse lib (free_Revision res)
              (of_nat (length (candidates (concat (map Roots (page_results log'))) pend indices)))
              (take (MaxSectorBatchSize lib)
                 (candidates (concat (map Roots (page_results log'))) pend indices))"
    "recorded log'
       = (if usage_RenterCost lib
               (usage_Add lib (sum_usage lib (usage_Zero lib) log') (free_Usage res)) \<noteq> 0
          then [[spendingRecord lib cm (sum_usage lib (usage_Zero lib) log') (free_Usage res)
                   (free_Revision res)]]
          else [])"
  using run
proof (cases rule: pruneContract_cases)
  case (enumerated rev0 w1 settings w2 st w3 log3)
  note e = enumerated_log[OF enumerated(5)]
  from e have st: "sectorRoots st = concat (map Roots (page_results log3))"
    "rootsUsage st = sum_usage lib (usage_Zero lib) log3"
    by auto
  from enumerated(6) show ?thesis
  proof (cases rule: pruneFetched_cases)
    case (freed indices w4 res w5)
    have pr: "page_results log' = page_results log3"
      unfolding freed(5) by (simp add: obs_defs)
    have su: "sum_usage lib u log' = sum_usage lib u log3" for u
      by (simp add: sum_usage_def pr)
    show ?thesis
    proof (rule that[of indices res])
      show "prunable_calls log' = [(concat (map Roots (page_results log')), Inr indices)]"
        unfolding pr st[symmetric] unfolding freed(5) using e
        by (simp add: obs_defs)
      show "\<forall>x \<in> set indices. unat x < length (concat (map Roots (page_results log')))"
        unfolding pr st[symmetric] using freed(2) .
      show "free_calls log'
       = [(take (MaxSectorBatchSize lib)
             (candidates (concat (map Roots (page_results log'))) pend indices), Inr res)]"
        unfolding pr st[symmetric] unfolding freed(5) using e
        by (simp add: obs_defs)
      show "resp = pruneResponse lib (free_Revision res)
              (of_nat (length (candidates (concat (map Roots (page_results log'))) pend indices)))
              (take (MaxSectorBatchSize lib)
                 (candidates (concat (map Roots (page_results log'))) pend indices))"
        unfolding pr st[symmetric] using freed(4) by simp
      show "recorded log'
       = (if usage_RenterCost lib
               (usage_Add lib (sum_usage lib (usage_Zero lib) log') (free_Usage res)) \<noteq> 0
          then [[spendingRecord lib cm (sum_usage lib (usage_Zero lib) log') (free_Usage res)
                   (free_Revision res)]]
          else [])"
        unfolding su st[symmetric] unfolding freed(5) using e
        by (simp add: obs_defs)
    qed
  qed simp_all
qed simp_all

text \<open>A run that returns an error has recorded no spending.\<close>

lemma pruneContract_error_unrecorded:
  assumes run: "pruneContract b lib gc cm hostIP pend w = Some (Inl e, w', log')"
  shows "recorded log' = []"
  using run
proof (cases rule: pruneContract_cases)
  case (enumeration_failed rev0 w1 settings w2 e')
  from enumerated_log[OF enumeration_failed(5)] show ?thesis by simp
next
  case (enumerated rev0 w1 settings w2 st w3 log3)
  note e = enumerated_log[OF enumerated(5)]
  from enumerated(6) show ?thesis
    by (cases rule: pruneFetched_cases)
       (use e in \<open>simp_all add: obs_defs\<close>)
qed (simp_all add: obs_defs)

text \<open>Every deletion call of a run carries the capped candidates.\<close>

lemma pruneContract_deletion:
  assumes run: "pruneContract b lib gc cm hostIP pend w = Some (out, w', log')"
    and del: "(del, r) \<in> set (free_calls log')"
  obtains indices where
    "prunable_calls log' = [(concat (map Roots (page_results log')), Inr indices)]"
    "\<forall>x \<in> set indices. unat x < length (concat (map Roots (page_results log')))"
    "free_calls log' = [(del, r)]"
    "del = take (MaxSectorBatchSize lib)
             (candidates (concat (map Roots (page_results log'))) pend indices)"
  using run
proof (cases rule: pruneContract_cases)
  case (revision_failed err)
  with del show ?thesis by (simp add: obs_defs)
next
  case (stale rev0)
  with del show ?thesis by (simp add: obs_defs)
next
  case (settings_failed rev0 w1 err)
  with del show ?thesis by (simp add: obs_defs)
next
  case (gouging rev0 w1 settings)
  with del show ?thesis by (simp add: obs_defs)
next
  case (enumeration_failed rev0 w1 settings w2 e')
  from enumerated_log[OF enumeration_failed(5)] del show ?thesis by simp
next
  case (enumerated rev0 w1 settings w2 st w3 log3)
  note e = enumerated_log[OF enumerated(5)]
  from e have st: "sectorRoots st = concat (map Roots (page_results log3))"
    by auto
  from enumerated(6) show ?thesis
  proof (cases rule: pruneFetched_cases)
    case (store_failed err)
    with del e show ?thesis by (simp add: obs_defs)
  next
    case (out_of_range indices x)
    with del e show ?thesis by (simp add: obs_defs)
  next
    case (free_failed indices w4 err)
    have pr: "page_results log' = page_results log3"
      unfolding free_failed(5) by (simp add: obs_defs)
    have fc: "free_calls log' = [(take (MaxSectorBatchSize lib)
                (candidates (sectorRoots st) pend indices), Inl err)]"
      unfolding free_failed(5) using e by (simp add: obs_defs)
    show ?thesis
    proof (rule that[of indices])
      show "prunable_calls log' = [(concat (map Roots (page_results log')), Inr indices)]"
        unfolding pr st[symmetric] unfolding free_failed(5) using e
        by (simp add: obs_defs)
      show "\<forall>x \<in> set indices. unat x < length (concat (map Roots (page_results log')))"
        unfolding pr st[symmetric] using free_failed(2) .
      show "free_calls log' = [(del, r)]" using del fc by simp
      show "del = take (MaxSectorBatchSize lib)
             (candidates (concat (map Roots (page_results log'))) pend indices)"
        unfolding pr st[symmetric] using del fc by simp
    qed
  next
    case (freed indices w4 res w5)
    have pr: "page_results log' = page_results log3"
      unfolding freed(5) by (simp add: obs_defs)
    have fc: "free_calls log' = [(take (MaxSectorBatchSize lib)
                (candidates (sectorRoots st) pend indices), Inr res)]"
      unfolding freed(5) using e by (simp add: obs_defs)
    show ?thesis
    proof (rule that[of indices])
      show "prunable_calls log' = [(concat (map Roots (page_results log')), Inr indices)]"
        unfolding pr st[symmetric] unfolding freed(5) using e
        by (simp add: obs_defs)
      show "\<forall>x \<in> set indices. unat x < length (concat (map Roots (page_results log')))"
        unfolding pr st[symmetric] using freed(2) .
      show "free_calls log' = [(del, r)]" using del fc by simp
      show "del = take (MaxSectorBatchSize lib)
             (candidates (concat (map Roots (page_results log'))) pend indices)"
        unfolding pr st[symmetric] using del fc by simp
    qed
  qed
qed

section \<open>Concrete runs\<close>

lemmas log_defs = demo_pages_def demo_freed_def demo_log_def capped_freed_def capped_log_def
  flaky_log_def refusing_log_def

lemma demo_run:
  "pruneContract demo_bus demo_lib demo_gc demo_cm ''host'' demo_pending 0
     = Some (Inr \<lparr> ContractSize = 8, Pruned = 8, Remaining = 0, Error = [] \<rparr>, 7, demo_log)"
  by (simp add: demo_defs run_defs log_defs fetchRoots.simps excludePending.simps)

lemma capped_run:
  "pruneContract demo_bus demo_lib demo_gc demo_cm ''host'' Map.empty 0
     = Some (Inr \<lparr> ContractSize = 8, Pruned = 8, Remaining = 4, Error = [] \<rparr>, 7, capped_log)"
  by (simp add: demo_defs run_defs log_defs fetchRoots.simps excludePending.simps)

lemma flaky_run:
  "pruneContract flaky_bus demo_lib demo_gc demo_cm ''host'' demo_pending 0
     = Some (Inl (SectorsFetchFailed ''connection reset''), 4, flaky_log)"
  by (simp add: demo_defs run_defs log_defs fetchRoots.simps excludePending.simps)

lemma refusing_run:
  "pruneContract refusing_bus demo_lib demo_gc demo_cm ''host'' demo_pending 0
     = Some (Inl (FreeSectorsFailed ''host unreachable''), 6, refusing_log)"
  by (simp add: demo_defs run_defs log_defs fetchRoots.simps excludePending.simps)

section \<open>Exclusion, cap and result\<close>

text \<open>
  Claim C5. In every run, whatever its outcome, a deletion call carries exactly the
  candidate indices returned by the store whose sector root is not a key of the pending
  uploads (the in-place loop of the source computes that filter), cut to the maximum
  batch size; so no index whose root is pending is ever passed to the deletion.
\<close>

theorem pruneContract_excludes_pending:
  assumes run: "pruneContract b lib gc cm hostIP pendingUploads w = Some (out, w', log')"
    and del: "(del, r) \<in> set (free_calls log')"
  shows "\<exists>roots indices.
           prunable_calls log' = [(roots, Inr indices)]
         \<and> excludePending roots pendingUploads indices 0 0
             = Inr [i \<leftarrow> indices. pendingUploads (roots ! unat i) = None]
         \<and> del = take (MaxSectorBatchSize lib)
                    [i \<leftarrow> indices. pendingUploads (roots ! unat i) = None]
         \<and> (\<forall>i \<in> set del. i \<in> set indices \<and> unat i < length roots
                             \<and> pendingUploads (roots ! unat i) = None)"
proof -
  from run del obtain indices where
    p: "prunable_calls log' = [(concat (map Roots (page_results log')), Inr indices)]"
    and r: "\<forall>x \<in> set indices. unat x < length (concat (map Roots (page_results log')))"
    and d: "del = take (MaxSectorBatchSize lib)
                    (candidates (concat (map Roots (page_results log'))) pendingUploads indices)"
    by (rule pruneContract_deletion)
  let ?roots = "concat (map Roots (page_results log'))"
  let ?keep = "[i \<leftarrow> indices. pendingUploads (?roots ! unat i) = None]"
  have d': "del = take (MaxSectorBatchSize lib) ?keep"
    using d by (simp add: candidates_def)
  have "set del \<subseteq> set ?keep" unfolding d' by (rule set_take_subset)
  then have "\<forall>i \<in> set del. i \<in> set indices \<and> unat i < length ?roots
                             \<and> pendingUploads (?roots ! unat i) = None"
    using r by auto
  with p d' excludePending_filter[OF r, of pendingUploads] show ?thesis by blast
qed

theorem pruneContract_excludes_pending_witness:
  "pruneContract demo_bus demo_lib demo_gc demo_cm ''host'' demo_pending 0
     = Some (Inr \<lparr> ContractSize = 8, Pruned = 8, Remaining = 0, Error = [] \<rparr>, 7, demo_log)
   \<and> ([0, 2], Inr demo_freed) \<in> set (free_calls demo_log)
   \<and> prunable_calls demo_log = [([10, 11, 12, 13], Inr [0, 1, 2])]
   \<and> excludePending [10, 11, 12, 13] demo_pending [0, 1, 2] 0 0 = Inr [0, 2]
   \<and> demo_pending ([10, 11, 12, 13] ! 1) = Some ()"
proof -
  have d: "([0, 2], Inr demo_freed) \<in> set (free_calls demo_log)"
    by (simp add: demo_log_def demo_pages_def obs_defs)
  have p: "prunable_calls demo_log = [([10, 11, 12, 13], Inr [0, 1, 2])]"
    by (simp add: demo_log_def demo_pages_def obs_defs)
  show ?thesis
    using pruneContract_excludes_pending[OF demo_run d] demo_run d
    by (simp add: p demo_pending_def)
qed

lemma unat_of_nat_u64: "x < 2 ^ 64 \<Longrightarrow> unat (of_nat x :: u64) = x"
  by (simp add: unat_of_nat)

lemma pruneResponse_fields:
  assumes le: "length del \<le> tot"
  shows "Pruned (pruneResponse lib r (of_nat tot) del) = of_nat (length del * SectorSize lib)"
    and "Remaining (pruneResponse lib r (of_nat tot) del)
           = of_nat ((tot - length del) * SectorSize lib)"
    and "ContractSize (pruneResponse lib r (of_nat tot) del) = Filesize r"
    and "Error (pruneResponse lib r (of_nat tot) del) = []"
  using le by (simp_all add: pruneResponse_def of_nat_diff)

text \<open>
  Claim C6. In every run that returns a response: there is one deletion call; its indices
  are the candidates left after the exclusion, cut to the maximum batch size, so at most
  that many; the candidates are the deleted ones followed by the deferred ones; the
  response has \<open>Pruned\<close> equal to the number deleted times the sector size, \<open>Remaining\<close>
  equal to the number of candidates minus the number deleted, times the sector size, and
  \<open>ContractSize\<close> equal to the file size of the revision the deletion returned. The
  fields are 64-bit: the equalities hold on words, and on the numbers once the
  candidates' bytes fit 64 bits.
\<close>

theorem pruneContract_batch_cap:
  assumes run: "pruneContract b lib gc cm hostIP pendingUploads w = Some (Inr resp, w', log')"
  shows "\<exists>roots indices del res.
           prunable_calls log' = [(roots, Inr indices)]
         \<and> free_calls log' = [(del, Inr res)]
         \<and> del = take (MaxSectorBatchSize lib) (candidates roots pendingUploads indices)
         \<and> length del \<le> MaxSectorBatchSize lib
         \<and> candidates roots pendingUploads indices
             = del @ drop (MaxSectorBatchSize lib) (candidates roots pendingUploads indices)
         \<and> Pruned resp = of_nat (length del * SectorSize lib)
         \<and> Remaining resp
             = of_nat ((length (candidates roots pendingUploads indices) - length del)
                        * SectorSize lib)
         \<and> ContractSize resp = Filesize (free_Revision res)
         \<and> (length (candidates roots pendingUploads indices) * SectorSize lib < 2 ^ 64 \<longrightarrow>
                unat (Pruned resp) = length del * SectorSize lib
              \<and> unat (Remaining resp)
                  = (length (candidates roots pendingUploads indices) - length del)
                      * SectorSize lib)"
proof -
  from run obtain indices res where
    p: "prunable_calls log' = [(concat (map Roots (page_results log')), Inr indices)]"
    and f: "free_calls log'
       = [(take (MaxSectorBatchSize lib)
             (candidates (concat (map Roots (page_results log'))) pendingUploads indices), Inr res)]"
    and r: "resp = pruneResponse lib (free_Revision res)
              (of_nat (length (candidates (concat (map Roots (page_results log'))) pendingUploads indices)))
              (take (MaxSectorBatchSize lib)
                 (candidates (concat (map Roots (page_results log'))) pendingUploads indices))"
    by (rule pruneContract_response)
  let ?cand = "candidates (concat (map Roots (page_results log'))) pendingUploads indices"
  let ?del = "take (MaxSectorBatchSize lib) ?cand"
  have le: "length ?del \<le> length ?cand" by simp
  note fields = pruneResponse_fields[OF le, of lib "free_Revision res", folded r]
  have cap: "length ?del \<le> MaxSectorBatchSize lib" by simp
  have split: "?cand = ?del @ drop (MaxSectorBatchSize lib) ?cand" by simp
  have nat: "unat (Pruned resp) = length ?del * SectorSize lib
           \<and> unat (Remaining resp) = (length ?cand - length ?del) * SectorSize lib"
    if fit: "length ?cand * SectorSize lib < 2 ^ 64"
  proof -
    have "length ?del * SectorSize lib \<le> length ?cand * SectorSize lib"
      using le by (rule mult_le_mono1)
    from this fit have a: "length ?del * SectorSize lib < 2 ^ 64" by (rule le_less_trans)
    have "(length ?cand - length ?del) * SectorSize lib \<le> length ?cand * SectorSize lib"
      by (rule mult_le_mono1) simp
    from this fit have b: "(length ?cand - length ?del) * SectorSize lib < 2 ^ 64"
      by (rule le_less_trans)
    show ?thesis
      unfolding fields using unat_of_nat_u64[OF a] unat_of_nat_u64[OF b] by simp
  qed
  show ?thesis
    using p f cap split fields(1,2,3) nat by blast
qed

theorem pruneContract_batch_cap_witness:
  "pruneContract demo_bus demo_lib demo_gc demo_cm ''host'' Map.empty 0
     = Some (Inr \<lparr> ContractSize = 8, Pruned = 8, Remaining = 4, Error = [] \<rparr>, 7, capped_log)
   \<and> prunable_calls capped_log = [([10, 11, 12, 13], Inr [0, 1, 2])]
   \<and> free_calls capped_log = [([0, 1], Inr capped_freed)]
   \<and> candidates [10, 11, 12, 13] Map.empty [0, 1, 2] = [0, 1, 2]
   \<and> length (candidates [10, 11, 12, 13] Map.empty [0, 1, 2]) * SectorSize demo_lib < 2 ^ 64
   \<and> MaxSectorBatchSize demo_lib = 2 \<and> SectorSize demo_lib = 4
   \<and> Filesize (free_Revision capped_freed) = 8"
proof -
  have p: "prunable_calls capped_log = [([10, 11, 12, 13], Inr [0, 1, 2])]"
    by (simp add: capped_log_def demo_pages_def obs_defs)
  have f: "free_calls capped_log = [([0, 1], Inr capped_freed)]"
    by (simp add: capped_log_def demo_pages_def obs_defs)
  show ?thesis
    using pruneContract_batch_cap[OF capped_run] capped_run
    by (simp add: p f candidates_def demo_lib_def capped_freed_def demo_rev_def)
qed

section \<open>Spending accounting\<close>

lemma additive_foldl:
  assumes "additive lib"
  shows "usage_RenterCost lib (foldl (usage_Add lib) u us)
           = usage_RenterCost lib u + sum_list (map (usage_RenterCost lib) us)"
  using assms by (induction us arbitrary: u) (simp_all add: additive_def)

lemma additive_sum_usage:
  assumes "additive lib"
  shows "usage_RenterCost lib (sum_usage lib (usage_Zero lib) log)
           = sum_list (map (\<lambda>p. usage_RenterCost lib (roots_Usage p)) (page_results log))"
  using additive_foldl[OF assms, of "usage_Zero lib" "map roots_Usage (page_results log)"] assms
  by (simp add: sum_usage_def additive_def comp_def)

text \<open>
  Claim C7. In every run that returns a response there is one successful deletion call,
  and with \<open>rootsUsage\<close> the usages of all pages of roots added up from the zero usage and
  \<open>deleteUsage\<close> the usage of the deletion: if the renter cost of their sum is not zero,
  exactly one spending record is handed to the store, whose \<open>Deletions\<close> is the renter cost
  of \<open>deleteUsage\<close> and whose \<open>SectorRoots\<close> is the renter cost of \<open>rootsUsage\<close>; if it is
  zero, none is. When the renter cost distributes over the addition of usages,
  \<open>SectorRoots\<close> is the sum of the renter costs of the pages, and a record is handed over
  if and only if that sum plus the renter cost of the deletion is not zero.
\<close>

theorem pruneContract_spending:
  assumes run: "pruneContract b lib gc cm hostIP pendingUploads w = Some (Inr resp, w', log')"
  shows "\<exists>del res.
           free_calls log' = [(del, Inr res)]
         \<and> (usage_RenterCost lib
               (usage_Add lib (sum_usage lib (usage_Zero lib) log') (free_Usage res)) \<noteq> 0
              \<longrightarrow> (\<exists>record. recorded log' = [[record]]
                     \<and> Deletions record = usage_RenterCost lib (free_Usage res)
                     \<and> SectorRoots record
                         = usage_RenterCost lib (sum_usage lib (usage_Zero lib) log')
                     \<and> FundAccount record = 0 \<and> Uploads record = 0
                     \<and> ContractID record = cm_ID cm
                     \<and> rec_RevisionNumber record = RevisionNumber (free_Revision res)
                     \<and> rec_Size record = Filesize (free_Revision res)))
         \<and> (usage_RenterCost lib
               (usage_Add lib (sum_usage lib (usage_Zero lib) log') (free_Usage res)) = 0
              \<longrightarrow> recorded log' = [])
         \<and> (additive lib \<longrightarrow>
               usage_RenterCost lib (sum_usage lib (usage_Zero lib) log')
                 = (\<Sum>p \<leftarrow> page_results log'. usage_RenterCost lib (roots_Usage p))
             \<and> (recorded log' \<noteq> [] \<longleftrightarrow>
                  (\<Sum>p \<leftarrow> page_results log'. usage_RenterCost lib (roots_Usage p))
                    + usage_RenterCost lib (free_Usage res) \<noteq> 0))"
proof -
  from run obtain indices res where
    f: "free_calls log'
       = [(take (MaxSectorBatchSize lib)
             (candidates (concat (map Roots (page_results log'))) pendingUploads indices), Inr res)]"
    and r: "recorded log'
       = (if usage_RenterCost lib
               (usage_Add lib (sum_usage lib (usage_Zero lib) log') (free_Usage res)) \<noteq> 0
          then [[spendingRecord lib cm (sum_usage lib (usage_Zero lib) log') (free_Usage res)
                   (free_Revision res)]]
          else [])"
    by (rule pruneContract_response)
  let ?roots = "sum_usage lib (usage_Zero lib) log'"
  let ?cost = "usage_RenterCost lib (usage_Add lib ?roots (free_Usage res))"
  have pos: "\<exists>record. recorded log' = [[record]]
                     \<and> Deletions record = usage_RenterCost lib (free_Usage res)
                     \<and> SectorRoots record = usage_RenterCost lib ?roots
                     \<and> FundAccount record = 0 \<and> Uploads record = 0
                     \<and> ContractID record = cm_ID cm
                     \<and> rec_RevisionNumber record = RevisionNumber (free_Revision res)
                     \<and> rec_Size record = Filesize (free_Revision res)"
    if "?cost \<noteq> 0"
    by (rule exI[of _ "spendingRecord lib cm ?roots (free_Usage res) (free_Revision res)"])
       (use r that in \<open>simp add: spendingRecord_def\<close>)
  have zero: "recorded log' = []" if "?cost = 0"
    using r that by simp
  have add: "usage_RenterCost lib ?roots
                 = (\<Sum>p \<leftarrow> page_results log'. usage_RenterCost lib (roots_Usage p))
             \<and> (recorded log' \<noteq> [] \<longleftrightarrow>
                  (\<Sum>p \<leftarrow> page_results log'. usage_RenterCost lib (roots_Usage p))
                    + usage_RenterCost lib (free_Usage res) \<noteq> 0)"
    if a: "additive lib"
  proof -
    have s: "usage_RenterCost lib ?roots
                 = (\<Sum>p \<leftarrow> page_results log'. usage_RenterCost lib (roots_Usage p))"
      by (rule additive_sum_usage[OF a])
    have "?cost = usage_RenterCost lib ?roots + usage_RenterCost lib (free_Usage res)"
      using a by (simp add: additive_def)
    with r s show ?thesis by simp
  qed
  show ?thesis
    by (intro exI[of _ "take (MaxSectorBatchSize lib)
             (candidates (concat (map Roots (page_results log'))) pendingUploads indices)"]
          exI[of _ res] conjI impI)
       (use f pos zero add in \<open>simp_all\<close>)
qed

lemma demo_additive: "additive demo_lib"
  by (simp add: additive_def demo_lib_def)

theorem pruneContract_spending_witness:
  "pruneContract demo_bus demo_lib demo_gc demo_cm ''host'' demo_pending 0
     = Some (Inr \<lparr> ContractSize = 8, Pruned = 8, Remaining = 0, Error = [] \<rparr>, 7, demo_log)
   \<and> additive demo_lib
   \<and> free_calls demo_log = [([0, 2], Inr demo_freed)]
   \<and> map roots_Usage (page_results demo_log) = [6, 6]
   \<and> free_Usage demo_freed = 6
   \<and> recorded demo_log
       = [[\<lparr> Deletions = 6, FundAccount = 0, SectorRoots = 12, Uploads = 0, ContractID = 1,
             rec_RevisionNumber = 8, rec_Size = 8, MissedHostPayout = 50,
             ValidRenterPayout = 100 \<rparr>]]"
proof -
  have f: "free_calls demo_log = [([0, 2], Inr demo_freed)]"
    by (simp add: demo_log_def demo_pages_def obs_defs)
  have p: "map roots_Usage (page_results demo_log) = [6, 6]"
    by (simp add: demo_log_def demo_pages_def obs_defs)
  have r: "recorded demo_log
       = [[\<lparr> Deletions = 6, FundAccount = 0, SectorRoots = 12, Uploads = 0, ContractID = 1,
             rec_RevisionNumber = 8, rec_Size = 8, MissedHostPayout = 50,
             ValidRenterPayout = 100 \<rparr>]]"
    by (simp add: demo_log_def demo_pages_def obs_defs)
  show ?thesis
    using pruneContract_spending[OF demo_run] demo_run demo_additive f p r
    by (simp add: demo_freed_def)
qed

section \<open>Failures after a paid call\<close>

text \<open>
  Claim C8 fails as stated. On the host whose connection breaks after the first page, the
  pass has paid for one page of roots (usage 6), returns the error of the failed second
  request, and has handed no spending record to the store.
\<close>

theorem pruneContract_error_accounting_counterexample:
  "result_of (pruneContract flaky_bus demo_lib demo_gc demo_cm ''host'' demo_pending 0)
     = Some (Inl (SectorsFetchFailed ''connection reset''))
   \<and> map roots_Usage
        (page_results
           (log_of (pruneContract flaky_bus demo_lib demo_gc demo_cm ''host'' demo_pending 0)))
       = [6]
   \<and> recorded (log_of (pruneContract flaky_bus demo_lib demo_gc demo_cm ''host'' demo_pending 0))
       = []"
  by (simp add: flaky_run result_of_def log_of_def flaky_log_def obs_defs)

text \<open>
  Claim C8, amended. A run that returns an error has handed no spending record to the
  store, whatever was paid before; a record is handed over only in a run that returns a
  response, after the deletion call has succeeded, and only when the renter cost of the
  summed usage of the pages and the deletion is not zero.
\<close>

theorem pruneContract_error_no_accounting:
  assumes run: "pruneContract b lib gc cm hostIP pendingUploads w = Some (out, w', log')"
  shows "(\<forall>e. out = Inl e \<longrightarrow> recorded log' = [])
       \<and> (recorded log' \<noteq> [] \<longrightarrow>
            (\<exists>resp del res. out = Inr resp \<and> free_calls log' = [(del, Inr res)]
               \<and> usage_RenterCost lib
                    (usage_Add lib (sum_usage lib (usage_Zero lib) log') (free_Usage res)) \<noteq> 0))"
proof -
  have a: "recorded log' = []" if o: "out = Inl e" for e
    by (rule pruneContract_error_unrecorded[OF run[unfolded o]])
  have b: "\<exists>resp del res. out = Inr resp \<and> free_calls log' = [(del, Inr res)]
               \<and> usage_RenterCost lib
                    (usage_Add lib (sum_usage lib (usage_Zero lib) log') (free_Usage res)) \<noteq> 0"
    if n: "recorded log' \<noteq> []"
  proof (cases out)
    case (Inl e)
    with a n show ?thesis by blast
  next
    case (Inr resp)
    from run[unfolded Inr] obtain indices res where
      f: "free_calls log'
       = [(take (MaxSectorBatchSize lib)
             (candidates (concat (map Roots (page_results log'))) pendingUploads indices), Inr res)]"
      and r: "recorded log'
       = (if usage_RenterCost lib
               (usage_Add lib (sum_usage lib (usage_Zero lib) log') (free_Usage res)) \<noteq> 0
          then [[spendingRecord lib cm (sum_usage lib (usage_Zero lib) log') (free_Usage res)
                   (free_Revision res)]]
          else [])"
      by (rule pruneContract_response)
    from r n have c: "usage_RenterCost lib
               (usage_Add lib (sum_usage lib (usage_Zero lib) log') (free_Usage res)) \<noteq> 0"
      by (simp split: if_splits)
    show ?thesis
      by (intro exI[of _ resp]
            exI[of _ "take (MaxSectorBatchSize lib)
               (candidates (concat (map Roots (page_results log'))) pendingUploads indices)"]
            exI[of _ res] conjI)
         (rule Inr f c)+
  qed
  show ?thesis using a b by blast
qed

theorem pruneContract_error_no_accounting_witness:
  "pruneContract flaky_bus demo_lib demo_gc demo_cm ''host'' demo_pending 0
     = Some (Inl (SectorsFetchFailed ''connection reset''), 4, flaky_log)
   \<and> recorded flaky_log = []
   \<and> pruneContract demo_bus demo_lib demo_gc demo_cm ''host'' demo_pending 0
       = Some (Inr \<lparr> ContractSize = 8, Pruned = 8, Remaining = 0, Error = [] \<rparr>, 7, demo_log)
   \<and> recorded demo_log \<noteq> []
   \<and> free_calls demo_log = [([0, 2], Inr demo_freed)]
   \<and> usage_RenterCost demo_lib
        (usage_Add demo_lib (sum_usage demo_lib (usage_Zero demo_lib) demo_log)
           (free_Usage demo_freed)) = 18"
proof -
  note t1 = pruneContract_error_no_accounting[OF flaky_run]
    and t2 = pruneContract_error_no_accounting[OF demo_run]
  from t1 have u: "recorded flaky_log = []" by blast
  have f: "free_calls demo_log = [([0, 2], Inr demo_freed)]"
    by (simp add: demo_log_def demo_pages_def obs_defs)
  have r: "recorded demo_log \<noteq> []"
    by (simp add: demo_log_def demo_pages_def obs_defs)
  have c: "usage_RenterCost demo_lib
        (usage_Add demo_lib (sum_usage demo_lib (usage_Zero demo_lib) demo_log)
           (free_Usage demo_freed)) = 18"
    by (simp add: sum_usage_def demo_log_def demo_pages_def obs_defs demo_lib_def
          demo_freed_def)
  show ?thesis
    using t2 by (intro conjI) (rule flaky_run u demo_run r f c)+
qed

text \<open>
  Claim C9 fails as stated. On the host that refuses the deletion after two paid pages of
  roots, the pass returns the hard error of the deletion call and no response at all.
\<close>

theorem pruneContract_partial_counterexample:
  "pruneContract refusing_bus demo_lib demo_gc demo_cm ''host'' demo_pending 0
     = Some (Inl (FreeSectorsFailed ''host unreachable''), 6, refusing_log)
   \<and> map roots_Usage (page_results refusing_log) = [6, 6]
   \<and> free_calls refusing_log = [([0, 2], Inl ''host unreachable'')]"
  by (simp add: refusing_run refusing_log_def demo_pages_def obs_defs)

text \<open>
  Claim C9, amended. Every response that \<open>pruneContract\<close> returns has an empty \<open>Error\<close>
  field and follows one successful deletion call; a deletion call that fails makes the
  whole pass return the error that wraps the failure of the deletion.
\<close>

theorem pruneContract_error_field:
  assumes run: "pruneContract b lib gc cm hostIP pendingUploads w = Some (out, w', log')"
  shows "(\<forall>resp. out = Inr resp \<longrightarrow>
            Error resp = [] \<and> (\<exists>del res. free_calls log' = [(del, Inr res)]))
       \<and> (\<forall>del err. (del, Inl err) \<in> set (free_calls log') \<longrightarrow>
            out = Inl (FreeSectorsFailed err))"
proof -
  have a: "Error resp = [] \<and> (\<exists>del res. free_calls log' = [(del, Inr res)])"
    if o: "out = Inr resp" for resp
  proof -
    from run[unfolded o] obtain indices res where
      f: "free_calls log'
       = [(take (MaxSectorBatchSize lib)
             (candidates (concat (map Roots (page_results log'))) pendingUploads indices), Inr res)]"
      and r: "resp = pruneResponse lib (free_Revision res)
              (of_nat (length (candidates (concat (map Roots (page_results log'))) pendingUploads indices)))
              (take (MaxSectorBatchSize lib)
                 (candidates (concat (map Roots (page_results log'))) pendingUploads indices))"
      by (rule pruneContract_response)
    from r have "Error resp = []" by (simp add: pruneResponse_def)
    with f show ?thesis by blast
  qed
  have b: "out = Inl (FreeSectorsFailed err)"
    if d: "(del, Inl err) \<in> set (free_calls log')" for del err
    using run
  proof (cases rule: pruneContract_cases)
    case (revision_failed err')
    with d show ?thesis by (simp add: obs_defs)
  next
    case (stale rev0)
    with d show ?thesis by (simp add: obs_defs)
  next
    case (settings_failed rev0 w1 err')
    with d show ?thesis by (simp add: obs_defs)
  next
    case (gouging rev0 w1 settings)
    with d show ?thesis by (simp add: obs_defs)
  next
    case (enumeration_failed rev0 w1 settings w2 e')
    from enumerated_log[OF enumeration_failed(5)] d show ?thesis by simp
  next
    case (enumerated rev0 w1 settings w2 st w3 log3)
    from enumerated_log[OF enumerated(5)] have e: "free_calls log3 = []" by simp
    from enumerated(6) show ?thesis
    proof (cases rule: pruneFetched_cases)
      case (store_failed err')
      have "free_calls log' = []" unfolding store_failed(3) using e by (simp add: obs_defs)
      with d show ?thesis by simp
    next
      case (out_of_range indices x)
      have "free_calls log' = []" unfolding out_of_range(5) using e by (simp add: obs_defs)
      with d show ?thesis by simp
    next
      case (free_failed indices w4 err')
      have "free_calls log' = [(take (MaxSectorBatchSize lib)
                (candidates (sectorRoots st) pendingUploads indices), Inl err')]"
        unfolding free_failed(5) using e by (simp add: obs_defs)
      with d have "err' = err" by simp
      with free_failed(4) show ?thesis by simp
    next
      case (freed indices w4 res w5)
      have "free_calls log' = [(take (MaxSectorBatchSize lib)
                (candidates (sectorRoots st) pendingUploads indices), Inr res)]"
        unfolding freed(5) using e by (simp add: obs_defs)
      with d show ?thesis by simp
    qed
  qed
  show ?thesis using a b by blast
qed

theorem pruneContract_error_field_witness:
  "pruneContract refusing_bus demo_lib demo_gc demo_cm ''host'' demo_pending 0
     = Some (Inl (FreeSectorsFailed ''host unreachable''), 6, refusing_log)
   \<and> ([0, 2], Inl ''host unreachable'') \<in> set (free_calls refusing_log)
   \<and> pruneContract demo_bus demo_lib demo_gc demo_cm ''host'' demo_pending 0
       = Some (Inr \<lparr> ContractSize = 8, Pruned = 8, Remaining = 0, Error = [] \<rparr>, 7, demo_log)
   \<and> free_calls demo_log = [([0, 2], Inr demo_freed)]"
proof -
  have f: "free_calls demo_log = [([0, 2], Inr demo_freed)]"
    by (simp add: demo_log_def demo_pages_def obs_defs)
  have g: "([0, 2], Inl ''host unreachable'') \<in> set (free_calls refusing_log)"
    by (simp add: refusing_log_def demo_pages_def obs_defs)
  show ?thesis
    using pruneContract_error_field[OF refusing_run] pruneContract_error_field[OF demo_run]
    by (intro conjI) (rule refusing_run g demo_run f)+
qed

section \<open>Termination of the enumeration\<close>

lemma silent_no_run:
  "loop_run b lib cm hostIP prices n st io y \<Longrightarrow> silent b \<Longrightarrow> offset st < n \<Longrightarrow> False"
proof (induction rule: loop_run.induct)
  case (loop_done st io)
  then show ?case by simp
next
  case (loop_fail st io err w')
  from loop_fail(3) obtain res w'' where
    "rhp4_SectorRoots b (fst io) (cm_HostKey cm) hostIP prices (cm_ID cm) (rev st) (offset st)
       (batch_length lib n (offset st)) = (Inr res, w'')"
    unfolding silent_def by blast
  with loop_fail(2) show ?case by simp
next
  case (loop_page st io res w' out)
  from loop_page(5) obtain res' w'' where
    "rhp4_SectorRoots b (fst io) (cm_HostKey cm) hostIP prices (cm_ID cm) (rev st) (offset st)
       (batch_length lib n (offset st)) = (Inr res', w'')" "Roots res' = []"
    unfolding silent_def by blast
  with loop_page(2) have "Roots res = []" by simp
  with loop_page(4)[OF loop_page(5)] loop_page(6) show ?case by simp
qed

lemma silent_never_returns:
  assumes "silent b" and "offset st < n"
  shows "fetchRoots b lib cm hostIP prices n st io = None"
proof (cases "fetchRoots b lib cm hostIP prices n st io")
  case None
  then show ?thesis .
next
  case (Some y)
  from silent_no_run[OF fetchRoots_loop_run[OF Some] assms] show ?thesis ..
qed

lemma triple_exists: "\<exists>a b c. x = (a, b, c)"
  by (cases x) auto

lemma pruneContract_returns:
  assumes wf: "wf_protocol lib" and sl: "go_slices b" and resp: "responsive b"
  shows "pruneContract b lib gc cm hostIP pendingUploads w \<noteq> None"
proof -
  have m1: "1 \<le> MaxSectorBatchSize lib" using wf unfolding wf_protocol_def by simp
  obtain r1 w1 where s1: "rhp4_LatestRevision b w (cm_HostKey cm) hostIP (cm_ID cm) = (r1, w1)"
    by (cases "rhp4_LatestRevision b w (cm_HostKey cm) hostIP (cm_ID cm)")
  show ?thesis
  proof (cases r1)
    case (Inl err)
    with s1 show ?thesis by (simp add: pruneContract_def Let_def)
  next
    case r1: (Inr fetched)
    obtain r2 w2 where s2: "rhp4_Settings b w1 (cm_HostKey cm) hostIP = (r2, w2)"
      by (cases "rhp4_Settings b w1 (cm_HostKey cm) hostIP")
    show ?thesis
    proof (cases r2)
      case (Inl err)
      with s1 r1 s2 show ?thesis by (simp add: pruneContract_def Let_def)
    next
      case r2: (Inr settings)
      let ?log2 = "[CallLatestRevision (cm_HostKey cm) hostIP (cm_ID cm) (Inr fetched),
                    CallSettings (cm_HostKey cm) hostIP (Inr settings)]"
      have "enumerateSectors b lib cm hostIP (Prices lib settings) fetched (w2, ?log2) \<noteq> None"
        unfolding enumerateSectors_def
        by (rule fetchRoots_returns[OF resp sl numsectors_bound[OF wf] m1 wf_MaxBatch[OF wf]])
      then obtain o3 io3 where
        e: "enumerateSectors b lib cm hostIP (Prices lib settings) fetched (w2, ?log2)
              = Some (o3, io3)"
        by (cases "enumerateSectors b lib cm hostIP (Prices lib settings) fetched (w2, ?log2)")
           auto
      show ?thesis
        using s1 r1 s2 r2 e by (cases o3) (simp_all add: pruneContract_def Let_def triple_exists)
    qed
  qed
qed

lemma demo_go_slices: "go_slices demo_bus"
  by (auto simp: go_slices_def demo_bus_def demo_roots_def)

lemma demo_responsive: "responsive demo_bus"
  by (auto simp: responsive_def demo_bus_def demo_roots_def)

lemma lazy_silent: "silent lazy_bus"
  by (simp add: silent_def lazy_bus_def demo_bus_def)

lemma demo_numsectors: "numsectors_of demo_lib demo_rev = 4"
  by (simp add: numsectors_of_def demo_lib_def demo_rev_def)

lemma lazy_run:
  "pruneContract lazy_bus demo_lib demo_gc demo_cm ''host'' demo_pending 0 = None"
proof -
  have "enumerateSectors lazy_bus demo_lib demo_cm ''host'' prices demo_rev io = None"
    for prices io
    unfolding enumerateSectors_def
    by (rule silent_never_returns[OF lazy_silent]) (simp add: demo_numsectors)
  then show ?thesis
    by (simp add: pruneContract_def Let_def lazy_bus_def demo_bus_def demo_gc_def demo_cm_def
          demo_rev_def demo_lib_def)
qed

text \<open>
  Claim C10. After a successful page the loop continues from the offset moved by the
  number of roots the page returned (not by the length asked for). So \<open>pruneContract\<close>
  returns whenever the constants are well-formed, pages are Go slices, and the host answers
  every request for a nonzero number of roots with at least one root; and on a host whose
  pages are always empty the enumeration of a contract with at least one sector never
  returns, as on the concrete host with empty pages.
\<close>

theorem fetchRoots_termination:
  "(offset st < n
      \<and> rhp4_SectorRoots b (fst io) (cm_HostKey cm) hostIP prices (cm_ID cm) (rev st) (offset st)
           (batch_length lib n (offset st)) = (Inr res, wnext)
     \<longrightarrow> fetchRoots b lib cm hostIP prices n st io
          = fetchRoots b lib cm hostIP prices n
              \<lparr> rev = roots_Revision res,
                sectorRoots = sectorRoots st @ Roots res,
                offset = offset st + of_nat (length (Roots res)),
                rootsUsage = usage_Add lib (rootsUsage st) (roots_Usage res) \<rparr>
              (wnext, snd io @ [CallSectorRoots (cm_HostKey cm) hostIP prices (cm_ID cm) (rev st)
                               (offset st) (batch_length lib n (offset st)) (Inr res)]))
   \<and> (wf_protocol lib \<and> go_slices b \<and> responsive b
     \<longrightarrow> (\<exists>y. pruneContract b lib gc cm hostIP pendingUploads w = Some y))
   \<and> (silent b \<and> 0 < numsectors_of lib fetched
     \<longrightarrow> enumerateSectors b lib cm hostIP prices fetched io = None)
   \<and> pruneContract lazy_bus demo_lib demo_gc demo_cm ''host'' demo_pending 0 = None"
proof (intro conjI impI)
  assume "offset st < n
      \<and> rhp4_SectorRoots b (fst io) (cm_HostKey cm) hostIP prices (cm_ID cm) (rev st) (offset st)
           (batch_length lib n (offset st)) = (Inr res, wnext)"
  then show "fetchRoots b lib cm hostIP prices n st io
          = fetchRoots b lib cm hostIP prices n
              \<lparr> rev = roots_Revision res,
                sectorRoots = sectorRoots st @ Roots res,
                offset = offset st + of_nat (length (Roots res)),
                rootsUsage = usage_Add lib (rootsUsage st) (roots_Usage res) \<rparr>
              (wnext, snd io @ [CallSectorRoots (cm_HostKey cm) hostIP prices (cm_ID cm) (rev st)
                               (offset st) (batch_length lib n (offset st)) (Inr res)])"
    by (subst fetchRoots.simps) (simp add: Let_def)
next
  assume "wf_protocol lib \<and> go_slices b \<and> responsive b"
  then have "wf_protocol lib" "go_slices b" "responsive b" by simp_all
  then have "pruneContract b lib gc cm hostIP pendingUploads w \<noteq> None"
    by (rule pruneContract_returns)
  then show "\<exists>y. pruneContract b lib gc cm hostIP pendingUploads w = Some y" by simp
next
  assume "silent b \<and> 0 < numsectors_of lib fetched"
  then show "enumerateSectors b lib cm hostIP prices fetched io = None"
    unfolding enumerateSectors_def by (intro silent_never_returns) simp_all
next
  show "pruneContract lazy_bus demo_lib demo_gc demo_cm ''host'' demo_pending 0 = None"
    by (rule lazy_run)
qed

theorem fetchRoots_termination_witness:
  "wf_protocol demo_lib \<and> go_slices demo_bus \<and> responsive demo_bus
   \<and> pruneContract demo_bus demo_lib demo_gc demo_cm ''host'' demo_pending 0
       = Some (Inr \<lparr> ContractSize = 8, Pruned = 8, Remaining = 0, Error = [] \<rparr>, 7, demo_log)
   \<and> silent lazy_bus \<and> 0 < numsectors_of demo_lib demo_rev
   \<and> enumerateSectors lazy_bus demo_lib demo_cm ''host'' 3 demo_rev (2, []) = None
   \<and> pruneContract lazy_bus demo_lib demo_gc demo_cm ''host'' demo_pending 0 = None
   \<and> offset \<lparr> rev = demo_rev, sectorRoots = [], offset = 0, rootsUsage = 0::nat \<rparr> < 4
   \<and> rhp4_SectorRoots demo_bus 2 (cm_HostKey demo_cm) ''host'' 3 (cm_ID demo_cm) demo_rev 0
         (batch_length demo_lib 4 0)
       = (Inr \<lparr> roots_Revision = demo_rev\<lparr> RevisionNumber := 6 \<rparr>, Roots = [10, 11],
                 roots_Usage = 6 \<rparr>, 3)
   \<and> fetchRoots demo_bus demo_lib demo_cm ''host'' 3 4
         \<lparr> rev = demo_rev, sectorRoots = [], offset = 0, rootsUsage = 0 \<rparr> (2, [])
       = fetchRoots demo_bus demo_lib demo_cm ''host'' 3 4
           \<lparr> rev = demo_rev\<lparr> RevisionNumber := 6 \<rparr>, sectorRoots = [10, 11], offset = 2,
             rootsUsage = 6 \<rparr>
           (3, [hd demo_pages])"
proof -
  note lazy = fetchRoots_termination[where b = lazy_bus and lib = demo_lib
      and fetched = demo_rev and cm = demo_cm and hostIP = "''host''" and prices = 3
      and io = "(2, [])" and gc = demo_gc and pendingUploads = demo_pending and w = 0]
  note demo = fetchRoots_termination[where b = demo_bus and lib = demo_lib
      and cm = demo_cm and hostIP = "''host''" and prices = 3 and io = "(2, [])" and n = 4
      and st = "\<lparr> rev = demo_rev, sectorRoots = [], offset = 0, rootsUsage = 0 \<rparr>"
      and res = "\<lparr> roots_Revision = demo_rev\<lparr> RevisionNumber := 6 \<rparr>, Roots = [10, 11],
                   roots_Usage = 6 \<rparr>" and wnext = 3
      and gc = demo_gc and pendingUploads = demo_pending and w = 0]
  have n: "0 < numsectors_of demo_lib demo_rev" by (simp add: demo_numsectors)
  from lazy lazy_silent n
  have e: "enumerateSectors lazy_bus demo_lib demo_cm ''host'' 3 demo_rev (2, []) = None"
    by blast
  from lazy have l: "pruneContract lazy_bus demo_lib demo_gc demo_cm ''host'' demo_pending 0 = None"
    by blast
  have o: "offset \<lparr> rev = demo_rev, sectorRoots = [], offset = 0, rootsUsage = 0::nat \<rparr> < 4"
    by simp
  have p: "rhp4_SectorRoots demo_bus 2 (cm_HostKey demo_cm) ''host'' 3 (cm_ID demo_cm) demo_rev 0
         (batch_length demo_lib 4 0)
       = (Inr \<lparr> roots_Revision = demo_rev\<lparr> RevisionNumber := 6 \<rparr>, Roots = [10, 11],
                 roots_Usage = 6 \<rparr>, 3)"
    by (simp add: demo_bus_def demo_lib_def demo_roots_def batch_length_def demo_rev_def)
  from demo o p
  have s: "fetchRoots demo_bus demo_lib demo_cm ''host'' 3 4
         \<lparr> rev = demo_rev, sectorRoots = [], offset = 0, rootsUsage = 0 \<rparr> (2, [])
       = fetchRoots demo_bus demo_lib demo_cm ''host'' 3 4
           \<lparr> rev = demo_rev\<lparr> RevisionNumber := 6 \<rparr>, sectorRoots = [10, 11], offset = 2,
             rootsUsage = 6 \<rparr>
           (3, [hd demo_pages])"
    by (simp add: demo_lib_def demo_pages_def demo_cm_def batch_length_def)
  show ?thesis
    by (intro conjI) (rule demo_wf demo_go_slices demo_responsive demo_run lazy_silent n e l o p s)+
qed

section \<open>The enumeration within a run of \<open>pruneContract\<close>\<close>

lemma sector_calls_append: "sector_calls (xs @ ys) = sector_calls xs @ sector_calls ys"
  by (simp add: sector_calls_def)

lemma pages_chain_sector_calls: "pages_chain f n r off pages \<Longrightarrow> sector_calls pages = pages"
proof (induction pages arbitrary: r off)
  case Nil
  then show ?case by (simp add: sector_calls_def)
next
  case (Cons c cs)
  then show ?case
    by (cases c) (auto simp: sector_calls_def is_page_request_def split: sum.splits)
qed

text \<open>What \<open>pruneFetched\<close> adds to the log: one query of the store and no page request.\<close>

lemma pruneFetched_log:
  assumes run: "pruneFetched b lib cm hostIP prices pend st (w3, log3) = (out, w', log')"
  shows "\<exists>rest r. log' = log3 @ rest \<and> sector_calls rest = [] \<and> page_results rest = []
           \<and> prunable_calls rest = [(sectorRoots st, r)]"
  using run
proof (cases rule: pruneFetched_cases)
  case (store_failed err)
  show ?thesis
    by (intro exI[of _ "[CallPrunableContractRoots (cm_ID cm) (sectorRoots st) (Inl err)]"]
          exI[of _ "Inl err"])
       (simp add: store_failed(3) obs_defs sector_calls_def is_page_request_def)
next
  case (out_of_range indices x)
  show ?thesis
    by (intro exI[of _ "[CallPrunableContractRoots (cm_ID cm) (sectorRoots st) (Inr indices)]"]
          exI[of _ "Inr indices"])
       (simp add: out_of_range(5) obs_defs sector_calls_def is_page_request_def)
next
  case (free_failed indices w4 err)
  show ?thesis
    by (intro exI[of _ "[CallPrunableContractRoots (cm_ID cm) (sectorRoots st) (Inr indices),
                        CallFreeSectors (cm_HostKey cm) hostIP prices (cm_ID cm) (rev st)
                          (take (MaxSectorBatchSize lib) (candidates (sectorRoots st) pend indices))
                          (Inl err)]"]
          exI[of _ "Inr indices"])
       (simp add: free_failed(5) obs_defs sector_calls_def is_page_request_def)
next
  case (freed indices w4 res w5)
  show ?thesis
    by (intro exI[of _ "[CallPrunableContractRoots (cm_ID cm) (sectorRoots st) (Inr indices),
                        CallFreeSectors (cm_HostKey cm) hostIP prices (cm_ID cm) (rev st)
                          (take (MaxSectorBatchSize lib) (candidates (sectorRoots st) pend indices))
                          (Inr res)]
                @ (if usage_RenterCost lib (usage_Add lib (rootsUsage st) (free_Usage res)) \<noteq> 0
                   then [CallRecordContractSpending
                           [spendingRecord lib cm (rootsUsage st) (free_Usage res) (free_Revision res)]
                           (fst (store_RecordContractSpending b w5
                              [spendingRecord lib cm (rootsUsage st) (free_Usage res) (free_Revision res)]))]
                   else [])"]
          exI[of _ "Inr indices"])
       (simp add: freed(5) obs_defs sector_calls_def is_page_request_def)
qed

text \<open>
  Claim C4. In every run of \<open>pruneContract\<close> that returns, with the revision that its
  \<open>LatestRevision\<close> call fetched: the number of sectors is the file size of the fetched
  revision divided by the sector size; the requests for roots in the log are a run of
  pages, each for the minimum of the maximum batch size and the sectors still remaining,
  each with the revision the preceding call returned (the fetched revision for the first)
  and at the offset reached by the roots returned so far; and when the loop has completed
  (the store is then asked for the prunable roots), the enumeration that ran started from
  the fetched revision, its running usage is the sum of the usages of all pages in the
  log, the roots collected and handed to the store are those of all pages in order, they
  are at least as many as the sectors, and exactly as many when no page brought more roots
  than were asked for.
\<close>

theorem pruneContract_enumeration:
  assumes wf: "wf_protocol lib"
    and run: "pruneContract b lib gc cm hostIP pendingUploads w = Some (out, w', log')"
    and fetch: "rhp4_LatestRevision b w (cm_HostKey cm) hostIP (cm_ID cm) = (Inr fetched, w1)"
  shows "unat (numsectors_of lib fetched) = unat (Filesize fetched) div SectorSize lib
       \<and> pages_chain
           (\<lambda>off. min (of_nat (MaxSectorBatchSize lib)) (numsectors_of lib fetched - off))
           (numsectors_of lib fetched) fetched 0 (sector_calls log')
       \<and> (\<forall>roots r. (roots, r) \<in> set (prunable_calls log') \<longrightarrow>
             (\<exists>settings w2 st w3 log3.
                 rhp4_Settings b w1 (cm_HostKey cm) hostIP = (Inr settings, w2)
               \<and> enumerateSectors b lib cm hostIP (Prices lib settings) fetched
                     (w2, [CallLatestRevision (cm_HostKey cm) hostIP (cm_ID cm) (Inr fetched),
                           CallSettings (cm_HostKey cm) hostIP (Inr settings)])
                   = Some (Inr st, w3, log3)
               \<and> pruneFetched b lib cm hostIP (Prices lib settings) pendingUploads st (w3, log3)
                   = (out, w', log')
               \<and> log3 = [CallLatestRevision (cm_HostKey cm) hostIP (cm_ID cm) (Inr fetched),
                          CallSettings (cm_HostKey cm) hostIP (Inr settings)]
                         @ sector_calls log'
               \<and> rootsUsage st = sum_usage lib (usage_Zero lib) log'
               \<and> sectorRoots st = concat (map Roots (page_results log'))
               \<and> prunable_calls log' = [(roots, r)]
               \<and> roots = sectorRoots st
               \<and> unat (numsectors_of lib fetched) \<le> length roots
               \<and> (list_all page_within (sector_calls log')
                    \<longrightarrow> length roots = unat (numsectors_of lib fetched))))"
proof -
  let ?n = "numsectors_of lib fetched"
  let ?f = "\<lambda>off. min (of_nat (MaxSectorBatchSize lib)) (?n - off)"
  have s: "SectorSize lib < 2 ^ 64" using wf_SectorSize[OF wf] by simp
  have n: "unat ?n = unat (Filesize fetched) div SectorSize lib"
    using s by (simp add: numsectors_of_def unat_div unat_of_nat)
  have early: "pages_chain ?f ?n fetched 0 (sector_calls log')
       \<and> (\<forall>roots r. (roots, r) \<in> set (prunable_calls log') \<longrightarrow> False)"
    if "sector_calls log' = []" and "prunable_calls log' = []"
    using that by simp
  from run show ?thesis
  proof (cases rule: pruneContract_cases)
    case (revision_failed err)
    with fetch show ?thesis by simp
  next
    case (stale rev0)
    then have "sector_calls log' = []" "prunable_calls log' = []"
      by (simp_all add: obs_defs sector_calls_def is_page_request_def)
    from early[OF this] n show ?thesis by blast
  next
    case (settings_failed rev0 w1' err)
    then have "sector_calls log' = []" "prunable_calls log' = []"
      by (simp_all add: obs_defs sector_calls_def is_page_request_def)
    from early[OF this] n show ?thesis by blast
  next
    case (gouging rev0 w1' settings)
    then have "sector_calls log' = []" "prunable_calls log' = []"
      by (simp_all add: obs_defs sector_calls_def is_page_request_def)
    from early[OF this] n show ?thesis by blast
  next
    case (enumeration_failed rev0 w1' settings w2 e)
    from enumeration_failed(1) fetch have eq: "rev0 = fetched" "w1' = w1" by simp_all
    let ?log2 = "[CallLatestRevision (cm_HostKey cm) hostIP (cm_ID cm) (Inr fetched),
                  CallSettings (cm_HostKey cm) hostIP (Inr settings)]"
    from enumerateSectors_chain[OF wf enumeration_failed(5)[unfolded eq]] obtain pages where
      l: "log' = ?log2 @ pages" and c: "pages_chain ?f ?n fetched 0 pages"
      by blast
    have sc: "sector_calls log' = pages"
      unfolding l sector_calls_append pages_chain_sector_calls[OF c]
      by (simp add: sector_calls_def is_page_request_def)
    have pc: "prunable_calls log' = []"
      using enumerated_log[OF enumeration_failed(5)] by simp
    show ?thesis using n c unfolding sc pc by simp
  next
    case (enumerated rev0 w1' settings w2 st w3 log3)
    from enumerated(1) fetch have eq: "rev0 = fetched" "w1' = w1" by simp_all
    let ?log2 = "[CallLatestRevision (cm_HostKey cm) hostIP (cm_ID cm) (Inr fetched),
                  CallSettings (cm_HostKey cm) hostIP (Inr settings)]"
    note en = enumerated(5)[unfolded eq]
    from enumerateSectors_chain[OF wf en] obtain pages where
      l3: "log3 = ?log2 @ pages" and c: "pages_chain ?f ?n fetched 0 pages"
      and ru: "rootsUsage st = sum_usage lib (usage_Zero lib) pages"
      and sr: "sectorRoots st = concat (map Roots (page_results pages))"
      and enough: "unat ?n \<le> length (sectorRoots st)"
      and exact: "(\<forall>c \<in> set pages. page_within c) \<longrightarrow> length (sectorRoots st) = unat ?n"
      by blast
    from pruneFetched_log[OF enumerated(6)] obtain rest r where
      l: "log' = log3 @ rest" and rs: "sector_calls rest = []" and rp: "page_results rest = []"
      and rq: "prunable_calls rest = [(sectorRoots st, r)]"
      by blast
    have sc3: "sector_calls log3 = pages"
      unfolding l3 sector_calls_append pages_chain_sector_calls[OF c]
      by (simp add: sector_calls_def is_page_request_def)
    have sc: "sector_calls log' = pages"
      unfolding l sector_calls_append sc3 rs by simp
    have p2: "page_results ?log2 = []" by (simp add: obs_defs)
    have pr: "page_results log' = page_results pages"
      unfolding l l3 page_results_append p2 rp by simp
    have su: "sum_usage lib (usage_Zero lib) log' = sum_usage lib (usage_Zero lib) pages"
      by (simp add: sum_usage_def pr)
    have pc: "prunable_calls log' = [(sectorRoots st, r)]"
      unfolding l prunable_calls_append rq using enumerated_log[OF enumerated(5)] by simp
    have tail: "\<exists>settings w2 st w3 log3.
                 rhp4_Settings b w1 (cm_HostKey cm) hostIP = (Inr settings, w2)
               \<and> enumerateSectors b lib cm hostIP (Prices lib settings) fetched
                     (w2, [CallLatestRevision (cm_HostKey cm) hostIP (cm_ID cm) (Inr fetched),
                           CallSettings (cm_HostKey cm) hostIP (Inr settings)])
                   = Some (Inr st, w3, log3)
               \<and> pruneFetched b lib cm hostIP (Prices lib settings) pendingUploads st (w3, log3)
                   = (out, w', log')
               \<and> log3 = [CallLatestRevision (cm_HostKey cm) hostIP (cm_ID cm) (Inr fetched),
                          CallSettings (cm_HostKey cm) hostIP (Inr settings)]
                         @ sector_calls log'
               \<and> rootsUsage st = sum_usage lib (usage_Zero lib) log'
               \<and> sectorRoots st = concat (map Roots (page_results log'))
               \<and> prunable_calls log' = [(roots, r')]
               \<and> roots = sectorRoots st
               \<and> unat ?n \<le> length roots
               \<and> (list_all page_within (sector_calls log') \<longrightarrow> length roots = unat ?n)"
      if m: "(roots, r') \<in> set (prunable_calls log')" for roots r'
    proof -
      from m pc have rr: "roots = sectorRoots st" "r' = r" by simp_all
      show ?thesis
        by (intro exI[of _ settings] exI[of _ w2] exI[of _ st] exI[of _ w3] exI[of _ log3]
              conjI)
           (use enumerated(3)[unfolded eq] en enumerated(6) l3 ru sr pc enough exact
             in \<open>simp_all add: sc su pr rr list_all_iff\<close>)
    qed
    show ?thesis using n c tail unfolding sc by blast
  qed
qed

lemma demo_fetch:
  "rhp4_LatestRevision demo_bus 0 (cm_HostKey demo_cm) ''host'' (cm_ID demo_cm) = (Inr demo_rev, 1)"
  by (simp add: demo_bus_def)

lemma demo_enumerate_logged:
  "enumerateSectors demo_bus demo_lib demo_cm ''host'' 3 demo_rev
     (2, [CallLatestRevision 2 ''host'' 1 (Inr demo_rev), CallSettings 2 ''host'' (Inr 3)])
     = Some (Inr demo_enumerated, 4,
             [CallLatestRevision 2 ''host'' 1 (Inr demo_rev), CallSettings 2 ''host'' (Inr 3)]
             @ demo_pages)"
  by (simp add: demo_defs run_defs fetchRoots.simps demo_pages_def demo_enumerated_def)

theorem pruneContract_enumeration_witness:
  "wf_protocol demo_lib
   \<and> pruneContract demo_bus demo_lib demo_gc demo_cm ''host'' demo_pending 0
       = Some (Inr \<lparr> ContractSize = 8, Pruned = 8, Remaining = 0, Error = [] \<rparr>, 7, demo_log)
   \<and> rhp4_LatestRevision demo_bus 0 (cm_HostKey demo_cm) ''host'' (cm_ID demo_cm)
       = (Inr demo_rev, 1)
   \<and> unat (numsectors_of demo_lib demo_rev) = 4
   \<and> sector_calls demo_log = demo_pages
   \<and> pages_chain (\<lambda>off. min 2 (4 - off)) 4 demo_rev 0 (sector_calls demo_log)
   \<and> ([10, 11, 12, 13], Inr [0, 1, 2]) \<in> set (prunable_calls demo_log)
   \<and> enumerateSectors demo_bus demo_lib demo_cm ''host'' 3 demo_rev
         (2, [CallLatestRevision 2 ''host'' 1 (Inr demo_rev), CallSettings 2 ''host'' (Inr 3)])
       = Some (Inr demo_enumerated, 4,
               [CallLatestRevision 2 ''host'' 1 (Inr demo_rev), CallSettings 2 ''host'' (Inr 3)]
               @ demo_pages)
   \<and> rootsUsage demo_enumerated = sum_usage demo_lib (usage_Zero demo_lib) demo_log
   \<and> sum_usage demo_lib (usage_Zero demo_lib) demo_log = 12
   \<and> sectorRoots demo_enumerated = [10, 11, 12, 13]
   \<and> list_all page_within (sector_calls demo_log)
   \<and> length (sectorRoots demo_enumerated) = unat (numsectors_of demo_lib demo_rev)"
proof -
  note t = pruneContract_enumeration[OF demo_wf demo_run demo_fetch]
  have n: "numsectors_of demo_lib demo_rev = 4" by (rule demo_numsectors)
  have m: "MaxSectorBatchSize demo_lib = 2" by (simp add: demo_lib_def)
  have un: "unat (numsectors_of demo_lib demo_rev) = 4" by (simp add: n)
  have sc: "sector_calls demo_log = demo_pages"
    by (simp add: demo_log_def demo_pages_def sector_calls_def is_page_request_def)
  from t have chain: "pages_chain (\<lambda>off. min 2 (4 - off)) 4 demo_rev 0 (sector_calls demo_log)"
    by (simp add: n m)
  have pc: "([10, 11, 12, 13], Inr [0, 1, 2]) \<in> set (prunable_calls demo_log)"
    by (simp add: demo_log_def demo_pages_def obs_defs)
  have su: "sum_usage demo_lib (usage_Zero demo_lib) demo_log = 12"
    by (simp add: sum_usage_def demo_log_def demo_pages_def obs_defs demo_lib_def)
  have ru: "rootsUsage demo_enumerated = sum_usage demo_lib (usage_Zero demo_lib) demo_log"
    unfolding su by (simp add: demo_enumerated_def)
  have sr: "sectorRoots demo_enumerated = [10, 11, 12, 13]"
    by (simp add: demo_enumerated_def)
  have pw: "list_all page_within (sector_calls demo_log)"
    unfolding sc by (simp add: demo_pages_def page_within_def)
  have ln: "length (sectorRoots demo_enumerated) = unat (numsectors_of demo_lib demo_rev)"
    unfolding sr un by simp
  show ?thesis
    by (intro conjI)
       (rule demo_wf demo_run demo_fetch un sc chain pc demo_enumerate_logged ru su sr pw ln)+
qed

section \<open>Mutual exclusion of the contract lock\<close>

lemma length_filter_mono:
  "(\<And>x. P x \<Longrightarrow> Q x) \<Longrightarrow> length (filter P xs) \<le> length (filter Q xs)"
  by (induction xs) auto

lemma wake_exclusive: "exclusive s \<Longrightarrow> exclusive (wake c s)"
  unfolding exclusive_def
  by (auto simp: wake_def outstanding_def split: option.splits)

lemma foldr_wake_exclusive: "exclusive s \<Longrightarrow> exclusive (foldr wake cs s)"
  by (induction cs) (simp_all add: wake_exclusive)

lemma drop_timed_out_exclusive: "exclusive s \<Longrightarrow> exclusive (drop_timed_out s)"
  by (simp add: exclusive_def drop_timed_out_def outstanding_def)

lemma lock_step_exclusive: "exclusive s \<Longrightarrow> exclusive (lock_step s e)"
proof (cases e)
  case (Acquire c maxWait duration priority)
  assume ex: "exclusive s"
  have "exclusive (s\<lparr> waiters := waiters s @ [\<lparr> w_contract = c, w_deadline = clock s + maxWait,
                         w_duration = duration, w_priority = priority \<rparr>] \<rparr>)"
    using ex by (simp add: exclusive_def outstanding_def)
  then show ?thesis
    unfolding Acquire lock_step.simps
    by (intro drop_timed_out_exclusive wake_exclusive)
next
  case (Keepalive token extension)
  assume ex: "exclusive s"
  let ?f = "\<lambda>l. if l_token l = token \<and> held (clock s) l
                  then l\<lparr> l_expiry := l_expiry l + extension \<rparr> else l"
  have "length (outstanding (lock_step s e) c) \<le> length (outstanding s c)" for c
    unfolding Keepalive lock_step.simps outstanding_def
    by (simp add: filter_map comp_def) (rule length_filter_mono, auto simp: held_def)
  with ex show ?thesis unfolding exclusive_def using le_trans by blast
next
  case (Release token)
  assume ex: "exclusive s"
  let ?s = "s\<lparr> leases := map (\<lambda>l. if l_token l = token \<and> held (clock s) l
                               then l\<lparr> l_released := True \<rparr> else l) (leases s) \<rparr>"
  have "length (outstanding ?s c) \<le> length (outstanding s c)" for c
    unfolding outstanding_def
    by (simp add: filter_map comp_def) (rule length_filter_mono, auto simp: held_def)
  with ex have "exclusive ?s" unfolding exclusive_def using le_trans by blast
  then show ?thesis
    unfolding Release lock_step.simps by (rule foldr_wake_exclusive)
next
  case (Elapse d)
  assume ex: "exclusive s"
  have "length (outstanding (s\<lparr> clock := clock s + d \<rparr>) c) \<le> length (outstanding s c)" for c
    unfolding outstanding_def
    by simp (rule length_filter_mono, auto simp: held_def)
  with ex have "exclusive (s\<lparr> clock := clock s + d \<rparr>)"
    unfolding exclusive_def using le_trans by blast
  then show ?thesis
    unfolding Elapse lock_step.simps Let_def
    by (intro foldr_wake_exclusive drop_timed_out_exclusive)
qed

lemma foldl_lock_step_exclusive: "exclusive s \<Longrightarrow> exclusive (foldl lock_step s es)"
  by (induction es arbitrary: s) (simp_all add: lock_step_exclusive)

lemma lock_init_exclusive: "exclusive lock_init"
  by (simp add: exclusive_def lock_init_def outstanding_def)

text \<open>
  Claim C1. After every sequence of \<open>Acquire\<close>, \<open>Keepalive\<close>, \<open>Release\<close> and elapse-of-time
  events, on every contract identifier, at most one lease that is neither expired nor
  released is outstanding. The sequence is arbitrary, so this holds at every instant of
  every history.
\<close>

theorem lock_mutual_exclusion:
  "length (outstanding (lock_run events) c) \<le> 1"
  using foldl_lock_step_exclusive[OF lock_init_exclusive, of events]
  by (simp add: lock_run_def exclusive_def)



theorem lock_mutual_exclusion_witness:
  "length (outstanding
             (lock_run [Acquire 1 5 10 0, Acquire 1 5 10 1, Acquire 1 20 10 3, Elapse 3,
                        Release 0]) 1) \<le> 1
   \<and> map l_token (outstanding
                     (lock_run [Acquire 1 5 10 0, Acquire 1 5 10 1, Acquire 1 20 10 3, Elapse 3,
                                Release 0]) 1) = [1]
   \<and> map l_token (leases
                     (lock_run [Acquire 1 5 10 0, Acquire 1 5 10 1, Acquire 1 20 10 3, Elapse 3,
                                Release 0])) = [0, 1]"
  using lock_mutual_exclusion[of "[Acquire 1 5 10 0, Acquire 1 5 10 1, Acquire 1 20 10 3,
      Elapse 3, Release 0]" 1]
  by (simp add: lock_run_def lock_init_def wake_def outstanding_def held_def drop_timed_out_def)

end
